theory Spec2Isabelle
  imports Complex_Main "HOL-Library.Log_Nat"
begin

chapter \<open>ts-dom-helper: DOM helpers, visibility and fade animations\<close>

text \<open>
  A shallow embedding of \<^verbatim>\<open>src/index.ts\<close> and of \<^verbatim>\<open>interpolate\<close>. The library is a thin
  layer over the browser: what the browser does (selector matching, HTML parsing,
  evaluation of generated code) enters the model as a parameter, a \<open>host\<close>; what the
  library does (dispatch on the kind of target, the class marker, the timer callbacks of
  the fades, the error of \<open>get\<close>) is translated function by function.
\<close>

section \<open>Numbers\<close>

text \<open>
  A JavaScript number is an IEEE 754 binary64 value. The finite ones are rationals; every
  arithmetic operation computes the exact result and rounds it to the nearest binary64
  value, ties to even (\<open>rd\<close>). The sign of zero is not kept: the fades only compare
  numbers and print them, and both treat \<open>-0\<close> as \<open>0\<close>.
\<close>

datatype number = NaN | PInf | NInf | Fin rat

definition pow2 :: "int \<Rightarrow> rat" where
  "pow2 e = (if 0 \<le> e then 2 ^ nat e else 1 / 2 ^ nat (- e))"

text \<open>The binary exponent of a positive rational: \<open>pow2 (ilog2 a) \<le> a < pow2 (ilog2 a + 1)\<close>.\<close>

definition ilog2 :: "rat \<Rightarrow> int" where
  "ilog2 a = (if 1 \<le> a then int (floorlog 2 (nat \<lfloor>a\<rfloor>)) - 1
              else - int (floorlog 2 (nat (\<lceil>1 / a\<rceil> - 1))))"

definition round_half_even :: "rat \<Rightarrow> int" where
  "round_half_even y =
     (let f = \<lfloor>y\<rfloor>; d = y - of_int f
      in if d < 1 / 2 then f else if 1 / 2 < d then f + 1 else if even f then f else f + 1)"

text \<open>
  Rounding to binary64: 53 significant bits, the least exponent of a unit in the last
  place is \<open>-1074\<close> (subnormals), and a result of \<open>2 ^ 1024\<close> or more is infinite.
\<close>

definition rd :: "rat \<Rightarrow> number" where
  "rd q =
     (if q = 0 then Fin 0
      else let a = \<bar>q\<bar>;
               e = max (ilog2 a - 52) (- 1074);
               r = of_int (round_half_even (a / pow2 e)) * pow2 e
           in if 2 ^ 1024 \<le> r then (if 0 < q then PInf else NInf)
              else Fin (if 0 < q then r else - r))"

fun num_sgn_inf :: "bool \<Rightarrow> number" where
  "num_sgn_inf True = PInf"
| "num_sgn_inf False = NInf"

fun num_neg :: "number \<Rightarrow> number" where
  "num_neg NaN = NaN"
| "num_neg PInf = NInf"
| "num_neg NInf = PInf"
| "num_neg (Fin x) = Fin (- x)"

fun num_add :: "number \<Rightarrow> number \<Rightarrow> number" where
  "num_add NaN _ = NaN"
| "num_add _ NaN = NaN"
| "num_add PInf NInf = NaN"
| "num_add NInf PInf = NaN"
| "num_add PInf _ = PInf"
| "num_add NInf _ = NInf"
| "num_add _ PInf = PInf"
| "num_add _ NInf = NInf"
| "num_add (Fin x) (Fin y) = rd (x + y)"

definition num_sub :: "number \<Rightarrow> number \<Rightarrow> number" where
  "num_sub a b = num_add a (num_neg b)"

fun num_mul :: "number \<Rightarrow> number \<Rightarrow> number" where
  "num_mul NaN _ = NaN"
| "num_mul _ NaN = NaN"
| "num_mul PInf PInf = PInf"
| "num_mul PInf NInf = NInf"
| "num_mul NInf PInf = NInf"
| "num_mul NInf NInf = PInf"
| "num_mul PInf (Fin y) = (if y = 0 then NaN else num_sgn_inf (0 < y))"
| "num_mul NInf (Fin y) = (if y = 0 then NaN else num_sgn_inf (y < 0))"
| "num_mul (Fin x) PInf = (if x = 0 then NaN else num_sgn_inf (0 < x))"
| "num_mul (Fin x) NInf = (if x = 0 then NaN else num_sgn_inf (x < 0))"
| "num_mul (Fin x) (Fin y) = rd (x * y)"

text \<open>Division; a zero divisor counts as \<open>+0\<close> (the program divides by the literal 10 only).\<close>

fun num_div :: "number \<Rightarrow> number \<Rightarrow> number" where
  "num_div NaN _ = NaN"
| "num_div _ NaN = NaN"
| "num_div (Fin x) (Fin y) =
     (if y = 0 then (if x = 0 then NaN else num_sgn_inf (0 < x)) else rd (x / y))"
| "num_div (Fin x) _ = Fin 0"
| "num_div PInf (Fin y) = num_sgn_inf (0 \<le> y)"
| "num_div NInf (Fin y) = num_sgn_inf (y < 0)"
| "num_div _ _ = NaN"

text \<open>The comparisons \<^verbatim>\<open><\<close> and \<^verbatim>\<open>>\<close>: false as soon as one side is NaN.\<close>

fun num_lt :: "number \<Rightarrow> number \<Rightarrow> bool" where
  "num_lt (Fin x) (Fin y) = (x < y)"
| "num_lt NInf (Fin y) = True"
| "num_lt NInf PInf = True"
| "num_lt (Fin x) PInf = True"
| "num_lt _ _ = False"

definition num_gt :: "number \<Rightarrow> number \<Rightarrow> bool" where
  "num_gt a b = num_lt b a"

text \<open>\<^verbatim>\<open>v || 0\<close> on a number: NaN and zero are falsy.\<close>

definition or_zero :: "number \<Rightarrow> number" where
  "or_zero v = (if v = NaN \<or> v = Fin 0 then Fin 0 else v)"

section \<open>Errors, nodes and the host\<close>

text \<open>
  \<open>Error m\<close> is \<^verbatim>\<open>throw new Error(m)\<close>, the one exception the library creates.
  \<open>HostError n\<close> is an exception named \<open>n\<close> that a browser interface raises and the
  library lets through (a \<open>SyntaxError\<close> for a selector that does not parse, whatever
  evaluated template code throws).
\<close>

datatype js_error = Error string | HostError string

type_synonym node = nat

text \<open>
  An element as far as the library touches it: its class list (the ordered token set of
  \<^verbatim>\<open>classList\<close>), the number that \<^verbatim>\<open>parseFloat(element.style.opacity)\<close> reads (NaN when the
  inline opacity is unset or not a number; after \<^verbatim>\<open>style.opacity = String(v)\<close> it is \<open>v\<close>), and
  everything else of the element (\<open>other\<close>: its remaining attributes, styles, listeners).
\<close>

record 'a html_element =
  classList :: "string list"
  style_opacity :: number
  other :: 'a

text \<open>
  The targets the library accepts, \<^verbatim>\<open>HTMLElement | HTMLElement[] | NodeListOf<HTMLElement> | string\<close>,
  and \<open>Other\<close> for a value that is none of them (null, a number, a plain object).
  \<open>Collection els\<close> is an array or node list that holds the items \<open>els\<close> for as long as
  the call runs: it is no part of the world that a callback changes. An array or live
  node list that a callback can change is a part of the world, and \<open>for_of_live\<close> below
  is the loop over it.
\<close>

datatype elements = Single node | Collection "node list" | Selector string | Other

fun isIterable :: "elements \<Rightarrow> bool" where
  "isIterable (Collection els) = True"
| "isIterable _ = False"

text \<open>
  The nodes that iterating an iterable target yields, in its own order, when nothing
  changes the target during the iteration.
\<close>

fun iterate :: "elements \<Rightarrow> node list" where
  "iterate (Collection els) = els"
| "iterate _ = []"

text \<open>
  The browser, over a world state \<open>'s\<close>: \<^verbatim>\<open>document.body\<close>, \<^verbatim>\<open>querySelectorAll\<close> (the matches
  below a node in document order, or the exception for a selector that does not parse)
  and \<^verbatim>\<open>innerHTML\<close>. \<^verbatim>\<open>querySelector\<close> is the first result of the same match, or null.
\<close>

record 's host =
  body :: node
  querySelectorAll :: "'s \<Rightarrow> node \<Rightarrow> string \<Rightarrow> js_error + node list"
  innerHTML :: "'s \<Rightarrow> node \<Rightarrow> string"

definition querySelector :: "'s host \<Rightarrow> 's \<Rightarrow> node \<Rightarrow> string \<Rightarrow> js_error + node option" where
  "querySelector h s fromElement selector =
     (case querySelectorAll h s fromElement selector of
        Inl e \<Rightarrow> Inl e
      | Inr [] \<Rightarrow> Inr None
      | Inr (el # _) \<Rightarrow> Inr (Some el))"

section \<open>Query helpers\<close>

definition find :: "'s host \<Rightarrow> string \<Rightarrow> node \<Rightarrow> 's \<Rightarrow> js_error + node option" where
  "find h selector fromElement s = querySelector h s fromElement selector"

definition findAll :: "'s host \<Rightarrow> string \<Rightarrow> node \<Rightarrow> 's \<Rightarrow> js_error + node list" where
  "findAll h selector fromElement s = querySelectorAll h s fromElement selector"



section \<open>Element normalisation\<close>

text \<open>
  The loop \<^verbatim>\<open>for (const el of iterableElements) results.push(callback(el))\<close>. A callback
  runs on the world state and returns a value or throws; an exception ends the loop.
\<close>

fun for_of :: "node list \<Rightarrow> (node \<Rightarrow> 's \<Rightarrow> (js_error + 'r) \<times> 's) \<Rightarrow> 'r list \<Rightarrow> 's \<Rightarrow>
    (js_error + 'r list) \<times> 's" where
  "for_of [] callback results s = (Inr results, s)"
| "for_of (el # els) callback results s =
     (case callback el s of
        (Inl e, s') \<Rightarrow> (Inl e, s')
      | (Inr r, s') \<Rightarrow> for_of els callback (results @ [r]) s')"

definition elementMap :: "'s host \<Rightarrow> elements \<Rightarrow> (node \<Rightarrow> 's \<Rightarrow> (js_error + 'r) \<times> 's) \<Rightarrow> 's \<Rightarrow>
    (js_error + 'r list) \<times> 's" where
  "elementMap h elements callback s =
     (case elements of
        Single el \<Rightarrow>
          (case callback el s of
             (Inl e, s') \<Rightarrow> (Inl e, s')
           | (Inr r, s') \<Rightarrow> (Inr [r], s'))
      | Selector selector \<Rightarrow>
          (case findAll h selector (body h) s of
             Inl e \<Rightarrow> (Inl e, s)
           | Inr iterableElements \<Rightarrow> for_of iterableElements callback [] s)
      | _ \<Rightarrow> for_of (if isIterable elements then iterate elements else []) callback [] s)"

text \<open>
  The same loop over an iterable object of the world. \<open>items s\<close> is the list of the
  object's items in the world \<open>s\<close>. \<^verbatim>\<open>for...of\<close> runs the array iterator, which arrays and
  node lists share: it keeps an index, and each round reads the length and the item at
  the index from the object as it is then, so a callback that removes or adds items
  changes which nodes the later rounds see. With a callback that keeps adding items the
  loop does not end; \<open>None\<close> is a call that does not return.
\<close>

partial_function (option) for_of_live :: "('s \<Rightarrow> node list) \<Rightarrow> nat \<Rightarrow>
    (node \<Rightarrow> 's \<Rightarrow> (js_error + 'r) \<times> 's) \<Rightarrow> 'r list \<Rightarrow> 's \<Rightarrow> ((js_error + 'r list) \<times> 's) option" where
  "for_of_live items i callback results s =
     (if i < length (items s)
      then (case callback (items s ! i) s of
              (Inl e, s') \<Rightarrow> Some (Inl e, s')
            | (Inr r, s') \<Rightarrow> for_of_live items (Suc i) callback (results @ [r]) s')
      else Some (Inr results, s))"

text \<open>
  \<open>elementMap\<close> on such an object: it is not an \<^verbatim>\<open>Element\<close> and not a string, it is
  iterable, and the loop runs over the object itself.
\<close>

definition elementMap_live :: "('s \<Rightarrow> node list) \<Rightarrow> (node \<Rightarrow> 's \<Rightarrow> (js_error + 'r) \<times> 's) \<Rightarrow> 's \<Rightarrow>
    ((js_error + 'r list) \<times> 's) option" where
  "elementMap_live items callback s = for_of_live items 0 callback [] s"

section \<open>Templates\<close>



section \<open>HTML to element\<close>

text \<open>
  Parsed markup is a list of nodes. The host gives \<^verbatim>\<open>String.prototype.trim\<close> and the HTML
  fragment parser (context element's tag, markup). A container is the detached element
  that \<^verbatim>\<open>document.createElement\<close> returns: a \<^verbatim>\<open>template\<close> element keeps parsed markup in
  its \<open>content\<close>, any other element in its child nodes.
\<close>

datatype dnode =
    ElementNode string "(string \<times> string) list" "dnode list"
  | TextNode string
  | CommentNode string

record container =
  tagName :: string
  childNodes :: "dnode list"
  content :: "dnode list"

record markup_host =
  trim :: "string \<Rightarrow> string"
  parse_fragment :: "string \<Rightarrow> string \<Rightarrow> dnode list"

datatype html_result = Wrapper container | Child "dnode option"

fun is_element_node :: "dnode \<Rightarrow> bool" where
  "is_element_node (ElementNode tag attrs children) = True"
| "is_element_node _ = False"

definition firstElementChild :: "dnode list \<Rightarrow> dnode option" where
  "firstElementChild nodes = List.find is_element_node nodes"

definition createElement :: "string \<Rightarrow> js_error + container" where
  "createElement tag =
     (if tag = [] then Inl (HostError ''InvalidCharacterError'')
      else Inr \<lparr>tagName = tag, childNodes = [], content = []\<rparr>)"

definition set_innerHTML :: "markup_host \<Rightarrow> container \<Rightarrow> string \<Rightarrow> container" where
  "set_innerHTML m wrapper html =
     (if tagName wrapper = ''template''
      then wrapper\<lparr>content := parse_fragment m (tagName wrapper) html\<rparr>
      else wrapper\<lparr>childNodes := parse_fragment m (tagName wrapper) html\<rparr>)"

text \<open>\<open>wrapperTag\<close> is \<open>None\<close> when the argument is left out; the empty string is falsy.\<close>

definition htmlToElement :: "markup_host \<Rightarrow> string \<Rightarrow> string option \<Rightarrow> js_error + html_result" where
  "htmlToElement m html wrapperTag =
     (case createElement (case wrapperTag of None \<Rightarrow> ''template'' | Some tag \<Rightarrow> tag) of
        Inl e \<Rightarrow> Inl e
      | Inr created \<Rightarrow>
          (let wrapper = set_innerHTML m created (trim m html)
           in if wrapperTag \<noteq> None \<and> wrapperTag \<noteq> Some []
              then Inr (Wrapper wrapper)
              else if tagName wrapper = ''template''
              then Inr (Child (firstElementChild (content wrapper)))
              else Inr (Child (firstElementChild (childNodes wrapper)))))"

section \<open>State: the document and the interval timers\<close>

text \<open>
  A fade's \<^verbatim>\<open>setInterval\<close> callback closes over \<open>element\<close>, \<open>opacity\<close>, the clamped
  \<open>toOpacity\<close> and the promise's \<open>resolve\<close>. A timer record is that closure, with the
  state of the timer (\<open>active\<close> until \<^verbatim>\<open>clearInterval\<close>) and of the promise. The timer id is
  the index in \<open>timers\<close>.
\<close>

datatype fade_kind = FadeIn | FadeOut

datatype promise_state = Pending | Resolved

record timer =
  fade :: fade_kind
  element :: node
  opacity :: number
  toOpacity :: number
  delay :: number
  active :: bool
  signal :: promise_state

record 'a state =
  doc :: "node \<Rightarrow> 'a html_element"
  timers :: "timer list"

text \<open>
  What a fade returns: \<^verbatim>\<open>Promise.resolve()\<close>, or the promise whose \<open>resolve\<close> the callback
  of timer \<open>i\<close> holds.
\<close>

datatype promise = ResolvedPromise | TimerPromise nat

fun is_resolved :: "'a state \<Rightarrow> promise \<Rightarrow> bool" where
  "is_resolved s ResolvedPromise = True"
| "is_resolved s (TimerPromise i) = (i < length (timers s) \<and> signal (timers s ! i) = Resolved)"

section \<open>Visibility\<close>

definition classList_add :: "string \<Rightarrow> string list \<Rightarrow> string list" where
  "classList_add token tokens = (if token \<in> set tokens then tokens else tokens @ [token])"

definition classList_remove :: "string \<Rightarrow> string list \<Rightarrow> string list" where
  "classList_remove token tokens = filter (\<lambda>t. t \<noteq> token) tokens"

definition hide_element :: "node \<Rightarrow> 'a state \<Rightarrow> 'a state" where
  "hide_element el s =
     s\<lparr>doc := (doc s)(el := (doc s el)\<lparr>classList := classList_add ''d-none'' (classList (doc s el))\<rparr>)\<rparr>"

definition show_element :: "node \<Rightarrow> 'a state \<Rightarrow> 'a state" where
  "show_element el s =
     s\<lparr>doc := (doc s)(el := (doc s el)\<lparr>classList := classList_remove ''d-none'' (classList (doc s el))\<rparr>)\<rparr>"

text \<open>
  \<open>hide\<close> and \<open>show\<close>: the element branch directly, anything else through \<open>elementMap\<close>
  with the callback \<^verbatim>\<open>el => hide(el)\<close>, which runs the element branch.
\<close>

definition hide :: "'a state host \<Rightarrow> elements \<Rightarrow> 'a state \<Rightarrow> (js_error + unit) \<times> 'a state" where
  "hide h target s =
     (case target of
        Single el \<Rightarrow> (Inr (), hide_element el s)
      | _ \<Rightarrow>
          (case elementMap h target (\<lambda>el s'. (Inr (), hide_element el s')) s of
             (Inl e, s') \<Rightarrow> (Inl e, s')
           | (Inr results, s') \<Rightarrow> (Inr (), s')))"

definition "show" :: "'a state host \<Rightarrow> elements \<Rightarrow> 'a state \<Rightarrow> (js_error + unit) \<times> 'a state" where
  "show h target s =
     (case target of
        Single el \<Rightarrow> (Inr (), show_element el s)
      | _ \<Rightarrow>
          (case elementMap h target (\<lambda>el s'. (Inr (), show_element el s')) s of
             (Inl e, s') \<Rightarrow> (Inl e, s')
           | (Inr results, s') \<Rightarrow> (Inr (), s')))"

section \<open>Fade animations\<close>

definition step_in :: "number \<Rightarrow> number" where
  "step_in v = num_div (num_add (num_mul v (Fin 10)) (Fin 1)) (Fin 10)"

definition step_out :: "number \<Rightarrow> number" where
  "step_out v = num_div (num_sub (num_mul v (Fin 10)) (Fin 1)) (Fin 10)"

definition clamp01 :: "number \<Rightarrow> number" where
  "clamp01 t =
     (let t1 = (if num_gt t (Fin 1) then Fin 1 else t)
      in if num_lt t1 (Fin 0) then Fin 0 else t1)"

text \<open>\<^verbatim>\<open>parseFloat(element.style.opacity) || 0\<close>\<close>

definition opacity_of :: "'a state \<Rightarrow> node \<Rightarrow> number" where
  "opacity_of s el = or_zero (style_opacity (doc s el))"

definition set_opacity :: "node \<Rightarrow> number \<Rightarrow> 'a state \<Rightarrow> 'a state" where
  "set_opacity el v s = s\<lparr>doc := (doc s)(el := (doc s el)\<lparr>style_opacity := v\<rparr>)\<rparr>"

text \<open>The element branch of \<open>fadeIn\<close> and \<open>fadeOut\<close>: read, clamp, start the timer.\<close>

definition new_timer :: "fade_kind \<Rightarrow> node \<Rightarrow> number \<Rightarrow> number \<Rightarrow> 'a state \<Rightarrow> timer" where
  "new_timer k el to_opacity dl s =
     \<lparr>fade = k, element = el, opacity = opacity_of s el, toOpacity = clamp01 to_opacity,
      delay = dl, active = True, signal = Pending\<rparr>"

definition start_fade :: "fade_kind \<Rightarrow> node \<Rightarrow> number \<Rightarrow> number \<Rightarrow> 'a state \<Rightarrow> promise \<times> 'a state" where
  "start_fade k el to_opacity dl s =
     (TimerPromise (length (timers s)), s\<lparr>timers := timers s @ [new_timer k el to_opacity dl s]\<rparr>)"

definition fadeIn_element :: "node \<Rightarrow> number \<Rightarrow> number \<Rightarrow> 'a state \<Rightarrow> promise \<times> 'a state" where
  "fadeIn_element el to_opacity dl s = start_fade FadeIn el to_opacity dl s"

definition fadeOut_element :: "node \<Rightarrow> number \<Rightarrow> number \<Rightarrow> 'a state \<Rightarrow> promise \<times> 'a state" where
  "fadeOut_element el to_opacity dl s = start_fade FadeOut el to_opacity dl s"

text \<open>One run of the interval callback of timer \<open>i\<close>, whose closure is \<open>tm\<close>.\<close>

definition tick_fadeIn :: "nat \<Rightarrow> timer \<Rightarrow> 'a state \<Rightarrow> 'a state" where
  "tick_fadeIn i tm s =
     (let v = step_in (opacity tm);
          s1 = (if num_gt (toOpacity tm) (Fin 0) then show_element (element tm) s else s)
      in if num_gt v (toOpacity tm)
         then s1\<lparr>timers := (timers s1)[i := tm\<lparr>opacity := v, signal := Resolved, active := False\<rparr>]\<rparr>
         else (set_opacity (element tm) v s1)\<lparr>timers := (timers s1)[i := tm\<lparr>opacity := v\<rparr>]\<rparr>)"

definition tick_fadeOut :: "nat \<Rightarrow> timer \<Rightarrow> 'a state \<Rightarrow> 'a state" where
  "tick_fadeOut i tm s =
     (let v = step_out (opacity tm)
      in if num_lt v (toOpacity tm)
         then hide_element (element tm)
                (s\<lparr>timers := (timers s)[i := tm\<lparr>opacity := v, signal := Resolved, active := False\<rparr>]\<rparr>)
         else (set_opacity (element tm) v s)\<lparr>timers := (timers s)[i := tm\<lparr>opacity := v\<rparr>]\<rparr>)"

text \<open>
  The host runs the callback of an interval timer only while the timer is active:
  \<open>fire i s\<close> is \<open>None\<close> for a timer that does not exist or was cleared.
\<close>

definition fire :: "nat \<Rightarrow> 'a state \<Rightarrow> 'a state option" where
  "fire i s =
     (if i < length (timers s) \<and> active (timers s ! i)
      then Some (case fade (timers s ! i) of
                   FadeIn \<Rightarrow> tick_fadeIn i (timers s ! i) s
                 | FadeOut \<Rightarrow> tick_fadeOut i (timers s ! i) s)
      else None)"

text \<open>\<open>ticks i n s\<close>: the period of timer \<open>i\<close> elapses \<open>n\<close> times, starting in \<open>s\<close>.\<close>

primrec ticks :: "nat \<Rightarrow> nat \<Rightarrow> 'a state \<Rightarrow> 'a state" where
  "ticks i 0 s = s"
| "ticks i (Suc n) s = (case fire i (ticks i n s) of None \<Rightarrow> ticks i n s | Some s' \<Rightarrow> s')"

text \<open>
  \<open>fadeIn\<close> and \<open>fadeOut\<close> on any target. For a target that is not an element the promises
  of the elements are collected in \<open>result\<close>, the last one is popped, and the call
  returns \<^verbatim>\<open>Promise.resolve()\<close>.
\<close>

definition fadeIn :: "'a state host \<Rightarrow> elements \<Rightarrow> number \<Rightarrow> number \<Rightarrow> 'a state \<Rightarrow>
    (js_error + promise) \<times> 'a state" where
  "fadeIn h target to_opacity dl s =
     (case target of
        Single el \<Rightarrow> (case fadeIn_element el to_opacity dl s of (p, s') \<Rightarrow> (Inr p, s'))
      | _ \<Rightarrow>
          (case elementMap h target
                  (\<lambda>el s'. case fadeIn_element el to_opacity dl s' of (p, s'') \<Rightarrow> (Inr p, s'')) s of
             (Inl e, s') \<Rightarrow> (Inl e, s')
           | (Inr result, s') \<Rightarrow> (Inr ResolvedPromise, s')))"

definition fadeOut :: "'a state host \<Rightarrow> elements \<Rightarrow> number \<Rightarrow> number \<Rightarrow> 'a state \<Rightarrow>
    (js_error + promise) \<times> 'a state" where
  "fadeOut h target to_opacity dl s =
     (case target of
        Single el \<Rightarrow> (case fadeOut_element el to_opacity dl s of (p, s') \<Rightarrow> (Inr p, s'))
      | _ \<Rightarrow>
          (case elementMap h target
                  (\<lambda>el s'. case fadeOut_element el to_opacity dl s' of (p, s'') \<Rightarrow> (Inr p, s'')) s of
             (Inl e, s') \<Rightarrow> (Inl e, s')
           | (Inr result, s') \<Rightarrow> (Inr ResolvedPromise, s')))"

section \<open>What the properties below speak about\<close>

text \<open>The hidden-class marker of \<open>hide\<close> and \<open>show\<close> on a node.\<close>

definition hidden :: "'a state \<Rightarrow> node \<Rightarrow> bool" where
  "hidden s el = (''d-none'' \<in> set (classList (doc s el)))"

text \<open>
  The opacity a fade's closure holds after \<open>n\<close> runs of its callback, as far as the
  arithmetic goes: the step applied \<open>n\<close> times to the value read at the start.
\<close>

definition track_in :: "number \<Rightarrow> nat \<Rightarrow> number" where
  "track_in v n = (step_in ^^ n) v"

definition track_out :: "number \<Rightarrow> nat \<Rightarrow> number" where
  "track_out v n = (step_out ^^ n) v"

text \<open>
  An observed callback for \<open>elementMap\<close>: it returns \<open>f el w\<close>, changes the world
  from \<open>w\<close> to \<open>g el w\<close>, and every invocation is appended to a log of calls kept beside
  the world. \<open>results_in_order\<close> is what the words "the callback results in the same
  order" denote: the \<open>i\<close>-th result is the callback's value on the \<open>i\<close>-th node, in
  the world that the calls on the nodes before it left.
\<close>

definition traced :: "(node \<Rightarrow> 'w \<Rightarrow> 'r) \<Rightarrow> (node \<Rightarrow> 'w \<Rightarrow> 'w) \<Rightarrow> node \<Rightarrow> 'w \<times> node list \<Rightarrow>
    (js_error + 'r) \<times> ('w \<times> node list)" where
  "traced f g el = (\<lambda>(w, calls). (Inr (f el w), (g el w, calls @ [el])))"

definition results_in_order :: "(node \<Rightarrow> 'w \<Rightarrow> 'r) \<Rightarrow> (node \<Rightarrow> 'w \<Rightarrow> 'w) \<Rightarrow> node list \<Rightarrow> 'w \<Rightarrow> 'r list" where
  "results_in_order f g els w = map (\<lambda>i. f (els ! i) (fold g (take i els) w)) [0..<length els]"

subsection \<open>A small page\<close>

text \<open>
  A concrete host and document, for running the functions: the body is node 0, the
  selector \<^verbatim>\<open>li\<close> matches the nodes 1, 2, 3 in this order, the empty selector does not
  parse, and any other selector matches nothing. Node 1 carries the hidden class; no node
  has an inline opacity. The markup host trims ASCII white space and parses the two-item
  list used below; any other non-empty markup is kept as one text node.
\<close>

definition example_host :: "'s host" where
  "example_host =
     \<lparr>body = 0,
      querySelectorAll = (\<lambda>s fromElement selector.
         if selector = ''li'' then Inr [1, 2, 3]
         else if selector = [] then Inl (HostError ''SyntaxError'')
         else Inr []),
      innerHTML = (\<lambda>s el. [])\<rparr>"

definition example_state :: "unit state" where
  "example_state =
     \<lparr>doc = (\<lambda>el. \<lparr>classList = (if el = 1 then [''box'', ''d-none''] else [''box'']),
                    style_opacity = NaN, other = ()\<rparr>),
      timers = []\<rparr>"

definition is_ascii_space :: "char \<Rightarrow> bool" where
  "is_ascii_space c = (c \<in> set [CHR '' '', CHR 0x09, CHR 0x0A, CHR 0x0B, CHR 0x0C, CHR 0x0D])"

definition example_markup :: markup_host where
  "example_markup =
     \<lparr>trim = (\<lambda>s. rev (dropWhile is_ascii_space (rev (dropWhile is_ascii_space s)))),
      parse_fragment = (\<lambda>tag html.
         if html = ''<li>a</li><li>b</li>''
         then [ElementNode ''li'' [] [TextNode ''a''], ElementNode ''li'' [] [TextNode ''b'']]
         else if html = [] then [] else [TextNode html])\<rparr>"

chapter \<open>Properties\<close>

section \<open>Rounding: the exponent and the error of one operation\<close>

lemma pow2_pos: "0 < pow2 e"
  by (simp add: pow2_def)

lemma pow2_of_nat: "pow2 (int n) = 2 ^ n"
  by (simp add: pow2_def)

lemma pow2_neg_nat: "pow2 (- int n) = 1 / 2 ^ n"
  by (simp add: pow2_def)

lemma pow2_add: "pow2 (a + b) = pow2 a * pow2 b"
proof -
  have "pow2 e = 2 powi e" for e
    by (simp add: pow2_def power_int_def field_simps)
  then show ?thesis
    by (simp add: power_int_add)
qed

lemma pow2_mono: "a \<le> b \<Longrightarrow> pow2 a \<le> pow2 b"
proof -
  assume "a \<le> b"
  then obtain n where b: "b = a + int n"
    by (metis nat_le_iff_add zle_iff_zadd)
  have "1 \<le> (2::rat) ^ n" by simp
  then show ?thesis
    using pow2_pos [of a] by (simp add: b pow2_add pow2_of_nat)
qed

lemma pow2_le_imp: "pow2 a \<le> pow2 b \<Longrightarrow> a \<le> b"
proof (rule ccontr)
  assume le: "pow2 a \<le> pow2 b" and "\<not> a \<le> b"
  then have "b + 1 \<le> a" by simp
  then have "pow2 (b + 1) \<le> pow2 a" by (rule pow2_mono)
  moreover have "pow2 (b + 1) = 2 * pow2 b"
    by (simp add: pow2_add) (simp add: pow2_def)
  ultimately show False using le pow2_pos [of b] by linarith
qed

lemma pow2_ilog2_le: "0 < a \<Longrightarrow> pow2 (ilog2 a) \<le> a"
proof (cases "1 \<le> a")
  case True
  let ?n = "nat \<lfloor>a\<rfloor>"
  have n: "0 < ?n" using True by simp
  have "(2::nat) ^ (floorlog 2 ?n - 1) \<le> ?n"
    using floorlog_bounds [OF n, of 2] by simp
  then have "rat_of_nat (2 ^ (floorlog 2 ?n - 1)) \<le> rat_of_nat ?n"
    using of_nat_le_iff by blast
  also have "\<dots> \<le> a" using True by simp
  finally have "2 ^ (floorlog 2 ?n - 1) \<le> a" by simp
  moreover have "0 < floorlog 2 ?n"
    using n by (simp add: floorlog_def)
  ultimately show ?thesis
    using True by (simp add: ilog2_def pow2_def nat_diff_distrib')
next
  case False
  assume a: "0 < a"
  let ?n = "nat (\<lceil>1 / a\<rceil> - 1)"
  have "1 < 1 / a" using False a by simp
  then have c: "2 \<le> \<lceil>1 / a\<rceil>" by linarith
  then have n: "0 < ?n" by simp
  have "?n < 2 ^ floorlog 2 ?n"
    using floorlog_bounds [OF n, of 2] by simp
  then have "?n + 1 \<le> 2 ^ floorlog 2 ?n" by linarith
  then have "rat_of_nat (?n + 1) \<le> rat_of_nat (2 ^ floorlog 2 ?n)"
    using of_nat_le_iff by blast
  moreover have "rat_of_nat (?n + 1) = of_int \<lceil>1 / a\<rceil>"
  proof -
    have "int (?n + 1) = \<lceil>1 / a\<rceil>" using c by linarith
    then have "rat_of_int (int (?n + 1)) = of_int \<lceil>1 / a\<rceil>" by (rule arg_cong)
    then show ?thesis by (simp only: of_int_of_nat_eq)
  qed
  moreover have "1 / a \<le> of_int \<lceil>1 / a\<rceil>" by simp
  moreover have "rat_of_nat (2 ^ floorlog 2 ?n) = 2 ^ floorlog 2 ?n" by simp
  ultimately have "1 / a \<le> 2 ^ floorlog 2 ?n" by linarith
  then have "1 / 2 ^ floorlog 2 ?n \<le> a"
    using a by (simp add: field_simps)
  then show ?thesis
    using False by (simp add: ilog2_def pow2_neg_nat)
qed

lemma ilog2_upper: "0 < a \<Longrightarrow> a < pow2 (ilog2 a + 1)"
proof (cases "1 \<le> a")
  case True
  let ?n = "nat \<lfloor>a\<rfloor>"
  have n: "0 < ?n" using True by simp
  have "?n < 2 ^ floorlog 2 ?n"
    using floorlog_bounds [OF n, of 2] by simp
  then have "?n + 1 \<le> 2 ^ floorlog 2 ?n" by linarith
  then have "rat_of_nat (?n + 1) \<le> rat_of_nat (2 ^ floorlog 2 ?n)"
    using of_nat_le_iff by blast
  moreover have "a < rat_of_nat (?n + 1)"
    using True by (simp add: ) linarith
  ultimately have "a < 2 ^ floorlog 2 ?n" by simp
  then show ?thesis
    using True by (simp add: ilog2_def pow2_def)
next
  case False
  assume a: "0 < a"
  let ?n = "nat (\<lceil>1 / a\<rceil> - 1)"
  let ?k = "floorlog 2 ?n"
  have "1 < 1 / a" using False a by simp
  then have c: "2 \<le> \<lceil>1 / a\<rceil>" by linarith
  then have n: "0 < ?n" by simp
  have k: "0 < ?k" using n by (simp add: floorlog_def)
  have "(2::nat) ^ (?k - 1) \<le> ?n"
    using floorlog_bounds [OF n, of 2] by simp
  then have "rat_of_nat (2 ^ (?k - 1)) \<le> rat_of_nat ?n"
    using of_nat_le_iff by blast
  moreover have "rat_of_nat ?n = of_int \<lceil>1 / a\<rceil> - 1"
  proof -
    have "int ?n = \<lceil>1 / a\<rceil> - 1" using c by linarith
    then have "rat_of_int (int ?n) = of_int (\<lceil>1 / a\<rceil> - 1)" by (rule arg_cong)
    then show ?thesis by (simp only: of_int_of_nat_eq of_int_diff of_int_1)
  qed
  moreover have "of_int \<lceil>1 / a\<rceil> - 1 < 1 / a" by linarith
  moreover have "rat_of_nat (2 ^ (?k - 1)) = 2 ^ (?k - 1)" by simp
  ultimately have "2 ^ (?k - 1) < 1 / a" by linarith
  then have lt: "a < 1 / 2 ^ (?k - 1)"
    using a by (simp add: field_simps)
  have "ilog2 a + 1 = - int (?k - 1)"
    using False k by (simp add: ilog2_def)
  then show ?thesis using lt by (simp add: pow2_neg_nat)
qed

lemma round_half_even_err: "\<bar>of_int (round_half_even y) - y\<bar> \<le> 1 / 2"
proof -
  have "of_int \<lfloor>y\<rfloor> \<le> y" "y < of_int \<lfloor>y\<rfloor> + 1" by linarith+
  then show ?thesis
    by (auto simp: round_half_even_def Let_def)
qed

lemma rd_error:
  assumes q: "\<bar>q\<bar> \<le> 2 ^ j" and j: "j \<le> 1000"
  shows "\<exists>r. rd q = Fin r \<and> q - 2 ^ j / 2 ^ 53 \<le> r \<and> r \<le> q + 2 ^ j / 2 ^ 53"
proof (cases "q = 0")
  case True
  then show ?thesis by (simp add: rd_def)
next
  case False
  define a where "a = \<bar>q\<bar>"
  define e where "e = max (ilog2 a - 52) (- 1074)"
  define m where "m = round_half_even (a / pow2 e)"
  define r where "r = rat_of_int m * pow2 e"
  have a: "0 < a" using False by (simp add: a_def)
  have "pow2 (ilog2 a) \<le> pow2 (int j)"
    using pow2_ilog2_le [OF a] q by (simp add: a_def pow2_of_nat)
  then have "ilog2 a \<le> int j" by (rule pow2_le_imp)
  then have "e \<le> int j + (- 52)" by (simp add: e_def)
  then have "pow2 e \<le> pow2 (int j + (- 52))" by (rule pow2_mono)
  also have "\<dots> = 2 ^ j / 2 ^ 52"
    by (simp only: pow2_add pow2_of_nat) (simp add: pow2_def)
  finally have e: "pow2 e \<le> 2 ^ j / 2 ^ 52" .
  have "\<bar>rat_of_int m - a / pow2 e\<bar> \<le> 1 / 2"
    unfolding m_def by (rule round_half_even_err)
  then have "\<bar>rat_of_int m - a / pow2 e\<bar> * pow2 e \<le> 1 / 2 * pow2 e"
    using pow2_pos [of e] by (simp add: mult_right_mono)
  moreover have "\<bar>rat_of_int m - a / pow2 e\<bar> * pow2 e = \<bar>r - a\<bar>"
  proof -
    have "\<bar>rat_of_int m - a / pow2 e\<bar> * pow2 e = \<bar>(rat_of_int m - a / pow2 e) * pow2 e\<bar>"
      using pow2_pos [of e] by (simp add: abs_mult)
    also have "(rat_of_int m - a / pow2 e) * pow2 e = r - a"
      using pow2_pos [of e] by (simp add: r_def field_simps)
    finally show ?thesis .
  qed
  ultimately have "\<bar>r - a\<bar> \<le> 2 ^ j / 2 ^ 53"
    using e by simp
  then have err: "a - 2 ^ j / 2 ^ 53 \<le> r" "r \<le> a + 2 ^ j / 2 ^ 53"
    by (simp_all only: abs_le_iff) linarith+
  have "(2::rat) ^ j / 2 ^ 53 \<le> 2 ^ j" by (simp add: field_simps)
  then have "r \<le> 2 * 2 ^ j" using err(2) q by (simp only: a_def)
  also have "\<dots> = 2 ^ Suc j" by simp
  also have "\<dots> < 2 ^ 1024"
    using j by (intro power_strict_increasing) auto
  finally have small: "\<not> 2 ^ 1024 \<le> r" by simp
  have rd: "rd q = Fin (if 0 < q then r else - r)"
    using False small by (simp add: rd_def Let_def a_def e_def m_def r_def)
  show ?thesis
  proof (cases "0 < q")
    case True
    then have "a = q" by (simp add: a_def)
    then show ?thesis using rd err True by simp
  next
    case neg: False
    then have "a = - q" by (simp add: a_def)
    then show ?thesis using rd err neg by simp
  qed
qed

lemma step_in_bounds:
  assumes x: "\<bar>x\<bar> \<le> 2 ^ 40"
  shows "\<exists>y. step_in (Fin x) = Fin y \<and> x + 1 / 20 \<le> y \<and> y \<le> x + 3 / 20"
proof -
  have "\<bar>x * 10\<bar> \<le> 2 ^ 44" using x by simp
  from rd_error [OF this] obtain a where a: "rd (x * 10) = Fin a" "x * 10 - 2 ^ 44 / 2 ^ 53 \<le> a" "a \<le> x * 10 + 2 ^ 44 / 2 ^ 53"
    by auto
  have "\<bar>a + 1\<bar> \<le> 2 ^ 45" using a(2,3) x by (simp add: abs_le_iff)
  from rd_error [OF this] obtain b where b: "rd (a + 1) = Fin b" "a + 1 - 2 ^ 45 / 2 ^ 53 \<le> b" "b \<le> a + 1 + 2 ^ 45 / 2 ^ 53"
    by auto
  have "\<bar>b / 10\<bar> \<le> 2 ^ 42" using a(2,3) b(2,3) x by (simp add: abs_le_iff)
  from rd_error [OF this] obtain c where c: "rd (b / 10) = Fin c" "b / 10 - 2 ^ 42 / 2 ^ 53 \<le> c" "c \<le> b / 10 + 2 ^ 42 / 2 ^ 53"
    by auto
  have "step_in (Fin x) = Fin c"
    by (simp add: step_in_def a b c)
  moreover have "x + 1 / 20 \<le> c" "c \<le> x + 3 / 20"
    using a(2,3) b(2,3) c(2,3) by simp_all
  ultimately show ?thesis by blast
qed

lemma step_out_bounds:
  assumes x: "\<bar>x\<bar> \<le> 2 ^ 40"
  shows "\<exists>y. step_out (Fin x) = Fin y \<and> x - 3 / 20 \<le> y \<and> y \<le> x - 1 / 20"
proof -
  have "\<bar>x * 10\<bar> \<le> 2 ^ 44" using x by simp
  from rd_error [OF this] obtain a where a: "rd (x * 10) = Fin a" "x * 10 - 2 ^ 44 / 2 ^ 53 \<le> a" "a \<le> x * 10 + 2 ^ 44 / 2 ^ 53"
    by auto
  have "\<bar>a + - 1\<bar> \<le> 2 ^ 45" using a(2,3) x by (simp add: abs_le_iff)
  from rd_error [OF this] obtain b where b: "rd (a + - 1) = Fin b" "a + - 1 - 2 ^ 45 / 2 ^ 53 \<le> b" "b \<le> a + - 1 + 2 ^ 45 / 2 ^ 53"
    by auto
  have "\<bar>b / 10\<bar> \<le> 2 ^ 42" using a(2,3) b(2,3) x by (simp add: abs_le_iff)
  from rd_error [OF this] obtain c where c: "rd (b / 10) = Fin c" "b / 10 - 2 ^ 42 / 2 ^ 53 \<le> c" "c \<le> b / 10 + 2 ^ 42 / 2 ^ 53"
    by auto
  have "step_out (Fin x) = Fin c"
    using a(1) b(1) c(1) by (simp add: step_out_def num_sub_def)
  moreover have "x - 3 / 20 \<le> c" "c \<le> x - 1 / 20"
    using a(2,3) b(2,3) c(2,3) by simp_all
  ultimately show ?thesis by blast
qed

section \<open>Element normalisation: one call per node, in order\<close>

lemma results_in_order_Cons:
  "results_in_order f g (el # els) w = f el w # results_in_order f g els (g el w)"
proof -
  have "[0..<length (el # els)] = 0 # map Suc [0..<length els]"
    by (simp add: upt_conv_Cons map_Suc_upt del: upt_Suc)
  then show ?thesis
    by (simp add: results_in_order_def comp_def del: upt_Suc)
qed

lemma traced_apply: "traced f g el (w, calls) = (Inr (f el w), (g el w, calls @ [el]))"
  by (simp add: traced_def)

lemma for_of_traced:
  "for_of els (traced f g) results (w, calls) =
     (Inr (results @ results_in_order f g els w), (fold g els w, calls @ els))"
proof (induction els arbitrary: results w calls)
  case Nil
  then show ?case by (simp add: results_in_order_def)
next
  case (Cons el els)
  then show ?case
    by (simp add: results_in_order_Cons traced_apply)
qed

text \<open>
  A callback that leaves the items of the object as they are: the loop over the object
  returns, and it is the loop over the list of its items.
\<close>

lemma for_of_live_fixed:
  assumes fixed: "\<And>el s. items (snd (callback el s)) = items s"
  shows "for_of_live items i callback results s = Some (for_of (drop i (items s)) callback results s)"
proof (induction "length (items s) - i" arbitrary: i results s)
  case 0
  then show ?case by (subst for_of_live.simps) simp
next
  case (Suc n)
  then have i: "i < length (items s)" by simp
  then have d: "drop i (items s) = items s ! i # drop (Suc i) (items s)"
    by (simp add: Cons_nth_drop_Suc)
  obtain r s' where c: "callback (items s ! i) s = (r, s')" by (cases "callback (items s ! i) s")
  have k: "items s' = items s" using fixed [of "items s ! i" s] c by simp
  show ?case
  proof (cases r)
    case (Inl e)
    then show ?thesis using i c d by (subst for_of_live.simps) simp
  next
    case (Inr v)
    have "n = length (items s') - Suc i" using Suc(2) k by simp
    from Suc(1) [OF this, of "results @ [v]"]
    show ?thesis using i c d Inr k by (subst for_of_live.simps) simp
  qed
qed

lemma elementMap_live_fixed:
  assumes "\<And>el s. items (snd (callback el s)) = items s"
  shows "elementMap_live items callback s = Some (elementMap h (Collection (items s)) callback s)"
  using for_of_live_fixed [of items callback 0 "[]" s, OF assms]
  by (simp add: elementMap_live_def elementMap_def)

text \<open>
  Claim C5, with the condition that a collection needs. \<open>elementMap\<close> invokes the
  callback exactly once per resolved node and returns the callback results in the same
  order. With an observed callback (\<open>traced\<close>) and a call log \<open>calls\<close>: a single node adds
  exactly that node to the log and gives a one-element result; an array or node list of
  the world, with the items \<open>items w\<close>, whose items the callback leaves as they are, adds
  its items in their order and gives their results in that order, and the call returns;
  a selector string that the host resolves to the nodes \<open>els\<close> does the same with \<open>els\<close>,
  so \<open>n\<close> matches give \<open>n\<close> calls and \<open>n\<close> results; an empty collection and a target
  that is neither a node nor a string nor iterable leave the log and the world as they
  were and return the empty list, without an error.
\<close>

theorem elementMap_once_per_node:
  "elementMap h (Single el) (traced f g) (w, calls) = (Inr [f el w], (g el w, calls @ [el])) \<and>
   ((\<forall>el w. items (g el w) = items w) \<longrightarrow>
    elementMap_live (\<lambda>(w, calls). items w) (traced f g) (w, calls) =
     Some (Inr (results_in_order f g (items w) w), (fold g (items w) w, calls @ items w)) \<and>
    length (results_in_order f g (items w) w) = length (items w)) \<and>
   (findAll h selector (body h) (w, calls) = Inr els \<longrightarrow>
    elementMap h (Selector selector) (traced f g) (w, calls) =
     (Inr (results_in_order f g els w), (fold g els w, calls @ els))) \<and>
   length (results_in_order f g els w) = length els \<and>
   elementMap h (Collection []) (traced f g) (w, calls) = (Inr [], (w, calls)) \<and>
   elementMap h Other (traced f g) (w, calls) = (Inr [], (w, calls))"
proof -
  have live: "elementMap_live (\<lambda>(w, calls). items w) (traced f g) (w, calls) =
     Some (Inr (results_in_order f g (items w) w), (fold g (items w) w, calls @ items w))"
    if fixed: "\<forall>el w. items (g el w) = items w"
  proof -
    have "(case snd (traced f g el s) of (w, calls) \<Rightarrow> items w) = (case s of (w, calls) \<Rightarrow> items w)"
      for el s
      using fixed by (cases s) (simp add: traced_apply)
    then have "for_of_live (\<lambda>(w, calls). items w) 0 (traced f g) [] (w, calls) =
        Some (for_of (drop 0 (case (w, calls) of (w, calls) \<Rightarrow> items w)) (traced f g) [] (w, calls))"
      by (rule for_of_live_fixed)
    then show ?thesis by (simp add: elementMap_live_def for_of_traced)
  qed
  have rest: "elementMap h (Single el) (traced f g) (w, calls) = (Inr [f el w], (g el w, calls @ [el])) \<and>
   (findAll h selector (body h) (w, calls) = Inr els \<longrightarrow>
    elementMap h (Selector selector) (traced f g) (w, calls) =
     (Inr (results_in_order f g els w), (fold g els w, calls @ els))) \<and>
   length (results_in_order f g els w) = length els \<and>
   elementMap h (Collection []) (traced f g) (w, calls) = (Inr [], (w, calls)) \<and>
   elementMap h Other (traced f g) (w, calls) = (Inr [], (w, calls))"
    by (simp add: elementMap_def for_of_traced traced_apply results_in_order_def)
  have len: "length (results_in_order f g (items w) w) = length (items w)"
    by (simp add: results_in_order_def)
  have live': "(\<forall>el w. items (g el w) = items w) \<longrightarrow>
    elementMap_live (\<lambda>(w, calls). items w) (traced f g) (w, calls) =
     Some (Inr (results_in_order f g (items w) w), (fold g (items w) w, calls @ items w)) \<and>
    length (results_in_order f g (items w) w) = length (items w)"
    by (intro impI conjI live len)
  show ?thesis
    by (rule conjI [OF rest [THEN conjunct1] conjI [OF live' rest [THEN conjunct2]]])
qed

theorem elementMap_once_per_node_witness:
  "(\<forall>el w. fst ((\<lambda>(el::nat) (w::node list \<times> nat). (fst w, snd w + 1)) el w) = fst w) \<and>
   findAll (example_host :: ((node list \<times> nat) \<times> node list) host) ''li''
      (body (example_host :: ((node list \<times> nat) \<times> node list) host)) (([1, 2, 3], 0), []) =
     Inr [1, 2, 3] \<and>
   elementMap_live (\<lambda>(w, calls). fst w)
      (traced (\<lambda>el w. 10 * el + snd w) (\<lambda>el w. (fst w, snd w + 1))) (([1, 2, 3], 0), []) =
     Some (Inr [10, 21, 32], (([1, 2, 3], 3), [1, 2, 3])) \<and>
   elementMap (example_host :: ((node list \<times> nat) \<times> node list) host) (Selector ''li'')
      (traced (\<lambda>el w. 10 * el + snd w) (\<lambda>el w. (fst w, snd w + 1))) (([1, 2, 3], 0), []) =
     (Inr [10, 21, 32], (([1, 2, 3], 3), [1, 2, 3]))"
proof -
  let ?h = "example_host :: ((node list \<times> nat) \<times> node list) host"
  let ?f = "\<lambda>(el::nat) (w::node list \<times> nat). 10 * el + snd w"
  let ?g = "\<lambda>(el::nat) (w::node list \<times> nat). (fst w, snd w + 1)"
  let ?w = "([1, 2, 3], 0) :: node list \<times> nat"
  have fixed: "\<forall>el w. fst (?g el w) = fst w" by simp
  have sel: "findAll ?h ''li'' (body ?h) (?w, []) = Inr [1, 2, 3]"
    by (simp add: findAll_def example_host_def)
  have res: "results_in_order ?f ?g [1, 2, 3] ?w = [10, 21, 32]"
    by (simp add: results_in_order_def upt_rec)
  have fo: "fold ?g [1, 2, 3] ?w = ([1, 2, 3], 3)"
    by simp
  note inst = elementMap_once_per_node [of ?h 1 ?f ?g ?w "[]" fst "''li''" "[1, 2, 3]"]
  have live: "elementMap_live (\<lambda>(w, calls). fst w) (traced ?f ?g) (?w, []) =
     Some (Inr [10, 21, 32], (([1, 2, 3], 3), [1, 2, 3]))"
    using inst [THEN conjunct2, THEN conjunct1, rule_format, OF fixed [rule_format], THEN conjunct1]
    by (simp only: res fo fst_conv append_Nil)
  have stat: "elementMap ?h (Selector ''li'') (traced ?f ?g) (?w, []) =
     (Inr [10, 21, 32], (([1, 2, 3], 3), [1, 2, 3]))"
    using inst [THEN conjunct2, THEN conjunct2, THEN conjunct1, rule_format, OF sel]
    by (simp only: res fo append_Nil)
  show ?thesis using fixed live stat sel by (intro conjI) simp_all
qed

text \<open>
  An array of the world whose items the callback changes: the world is the array
  \<^verbatim>\<open>[n1, n2, n3]\<close> itself, and the callback removes the node it is given from the array.
  The first round passes \<open>n1\<close> and leaves \<^verbatim>\<open>[n2, n3]\<close>; the second reads index 1, passes
  \<open>n3\<close> and leaves \<^verbatim>\<open>[n2]\<close>; the third finds index 2 beyond the length and ends the
  loop. The callback ran on two of the three nodes, and never on \<open>n2\<close>.
\<close>

theorem elementMap_skips_after_removal:
  "elementMap_live (\<lambda>(w, calls). w) (traced (\<lambda>el w. el) (\<lambda>el w. remove1 el w)) ([1, 2, 3], []) =
     Some (Inr [1, 3], ([2], [1, 3]))"
  unfolding elementMap_live_def
  apply (subst for_of_live.simps, simp add: traced_apply)
  apply (subst for_of_live.simps, simp add: traced_apply)
  apply (subst for_of_live.simps, simp add: traced_apply)
  done

section \<open>Query helpers: first match, not found, and the error of get\<close>





section \<open>Visibility\<close>

lemma hide_element_idem: "hidden s el \<Longrightarrow> hide_element el s = s"
  by (simp add: hidden_def hide_element_def classList_add_def)

lemma show_element_visible: "\<not> hidden (show_element el s) el"
  by (simp add: hidden_def show_element_def classList_remove_def)

lemma show_element_idem: "\<not> hidden s el \<Longrightarrow> show_element el s = s"
proof -
  assume "\<not> hidden s el"
  then have "filter (\<lambda>t. t \<noteq> ''d-none'') (classList (doc s el)) = classList (doc s el)"
    by (auto simp: hidden_def filter_id_conv)
  then show ?thesis
    by (simp add: show_element_def classList_remove_def)
qed

text \<open>
  Claim C8. For every node, \<open>hide\<close> and \<open>show\<close> are idempotent and inverse with respect to
  the hidden-class marker: \<open>hide\<close> on a hidden node and \<open>show\<close> on a visible node return
  without error and leave the whole state, so the class list, unchanged; \<open>hide\<close> followed
  by \<open>show\<close> on the same node leaves it without the marker.
\<close>

theorem hide_show_idempotent_inverse:
  "(hidden s el \<longrightarrow> hide h (Single el) s = (Inr (), s)) \<and>
   (\<not> hidden s el \<longrightarrow> show h (Single el) s = (Inr (), s)) \<and>
   (\<exists>s1 s2. hide h (Single el) s = (Inr (), s1) \<and> show h (Single el) s1 = (Inr (), s2) \<and>
      \<not> hidden s2 el)"
  by (simp add: hide_def show_def hide_element_idem show_element_idem show_element_visible)

theorem hide_show_idempotent_inverse_witness:
  "hidden example_state 1 \<and> hide example_host (Single 1) example_state = (Inr (), example_state) \<and>
   \<not> hidden example_state 2 \<and> show example_host (Single 2) example_state = (Inr (), example_state)"
  using hide_show_idempotent_inverse [of example_state 1 example_host]
    hide_show_idempotent_inverse [of example_state 2 example_host]
  by (simp add: hidden_def example_state_def)

text \<open>
  Claim C10. For every node, \<open>hide\<close> changes only the membership of the class
  \<^verbatim>\<open>d-none\<close> in that node's class list (it is present afterwards) and \<open>show\<close> only the
  same membership (it is absent afterwards): every other class is a member after the call
  exactly if it was before, and the other classes keep their order; the inline opacity and
  everything else of the node, every other node, and the timers are unchanged.
\<close>

theorem hide_show_frame:
  "(\<exists>s'. hide h (Single el) s = (Inr (), s') \<and>
      hidden s' el \<and>
      (\<forall>c. c \<noteq> ''d-none'' \<longrightarrow> (c \<in> set (classList (doc s' el))) = (c \<in> set (classList (doc s el)))) \<and>
      filter (\<lambda>c. c \<noteq> ''d-none'') (classList (doc s' el)) =
        filter (\<lambda>c. c \<noteq> ''d-none'') (classList (doc s el)) \<and>
      style_opacity (doc s' el) = style_opacity (doc s el) \<and>
      other (doc s' el) = other (doc s el) \<and>
      (\<forall>el'. el' \<noteq> el \<longrightarrow> doc s' el' = doc s el') \<and>
      timers s' = timers s) \<and>
   (\<exists>s'. show h (Single el) s = (Inr (), s') \<and>
      \<not> hidden s' el \<and>
      (\<forall>c. c \<noteq> ''d-none'' \<longrightarrow> (c \<in> set (classList (doc s' el))) = (c \<in> set (classList (doc s el)))) \<and>
      filter (\<lambda>c. c \<noteq> ''d-none'') (classList (doc s' el)) =
        filter (\<lambda>c. c \<noteq> ''d-none'') (classList (doc s el)) \<and>
      style_opacity (doc s' el) = style_opacity (doc s el) \<and>
      other (doc s' el) = other (doc s el) \<and>
      (\<forall>el'. el' \<noteq> el \<longrightarrow> doc s' el' = doc s el') \<and>
      timers s' = timers s)"
  by (auto simp: hide_def show_def hidden_def hide_element_def show_element_def
      classList_add_def classList_remove_def)

theorem hide_show_frame_witness:
  "''box'' \<noteq> ''d-none'' \<and> (1::nat) \<noteq> 2 \<and>
   (\<exists>s'. hide example_host (Single 2) example_state = (Inr (), s') \<and> hidden s' 2 \<and>
      ''box'' \<in> set (classList (doc s' 2)) \<and> doc s' 1 = doc example_state 1) \<and>
   (\<exists>s'. show example_host (Single 2) example_state = (Inr (), s') \<and> \<not> hidden s' 2 \<and>
      ''box'' \<in> set (classList (doc s' 2)) \<and> doc s' 1 = doc example_state 1)"
proof -
  have box: "''box'' \<noteq> ''d-none''" and ne: "(1::nat) \<noteq> 2" by simp_all
  have mem: "''box'' \<in> set (classList (doc example_state 2))"
    by (simp add: example_state_def)
  note frame = hide_show_frame [of example_host 2 example_state]
  from frame [THEN conjunct1] obtain s1 where
    h: "hide example_host (Single 2) example_state = (Inr (), s1)" "hidden s1 2"
      "\<forall>c. c \<noteq> ''d-none'' \<longrightarrow>
         (c \<in> set (classList (doc s1 2))) = (c \<in> set (classList (doc example_state 2)))"
      "\<forall>el'. el' \<noteq> 2 \<longrightarrow> doc s1 el' = doc example_state el'"
    by - (erule exE, elim conjE, rule that; assumption)
  from frame [THEN conjunct2] obtain s2 where
    s: "show example_host (Single 2) example_state = (Inr (), s2)" "\<not> hidden s2 2"
      "\<forall>c. c \<noteq> ''d-none'' \<longrightarrow>
         (c \<in> set (classList (doc s2 2))) = (c \<in> set (classList (doc example_state 2)))"
      "\<forall>el'. el' \<noteq> 2 \<longrightarrow> doc s2 el' = doc example_state el'"
    by - (erule exE, elim conjE, rule that; assumption)
  have m1: "''box'' \<in> set (classList (doc s1 2))"
    using h(3) [rule_format, OF box] mem by (simp only:)
  have m2: "''box'' \<in> set (classList (doc s2 2))"
    using s(3) [rule_format, OF box] mem by (simp only:)
  have d1: "doc s1 1 = doc example_state 1" using h(4) [rule_format, OF ne] .
  have d2: "doc s2 1 = doc example_state 1" using s(4) [rule_format, OF ne] .
  have a: "\<exists>s'. hide example_host (Single 2) example_state = (Inr (), s') \<and> hidden s' 2 \<and>
      ''box'' \<in> set (classList (doc s' 2)) \<and> doc s' 1 = doc example_state 1"
    by (rule exI [of _ s1]) (intro conjI h(1) h(2) m1 d1)
  have b: "\<exists>s'. show example_host (Single 2) example_state = (Inr (), s') \<and> \<not> hidden s' 2 \<and>
      ''box'' \<in> set (classList (doc s' 2)) \<and> doc s' 1 = doc example_state 1"
    by (rule exI [of _ s2]) (intro conjI s(1) s(2) m2 d2)
  show ?thesis by (intro conjI box ne a b)
qed

section \<open>HTML to element\<close>

lemma firstElementChild_first:
  assumes "\<forall>n\<in>set pre. \<not> is_element_node n"
  shows "firstElementChild (pre @ ElementNode tag attrs children # rest) =
     Some (ElementNode tag attrs children)"
  using assms by (induction pre) (simp_all add: firstElementChild_def)

lemma firstElementChild_none:
  assumes "\<forall>n\<in>set nodes. \<not> is_element_node n"
  shows "firstElementChild nodes = None"
  using assms by (simp add: firstElementChild_def find_None_iff)

text \<open>
  Claim C9. \<open>htmlToElement\<close> parses the trimmed string into a detached container. With a
  wrapper tag it returns the container itself, which holds the parsed markup (a
  \<^verbatim>\<open>template\<close> element in its content, any other element as its child nodes). Without a
  wrapper tag the container is a \<^verbatim>\<open>template\<close> and the result is the first parsed child
  that is an element: whatever follows that element is discarded, and when no parsed child
  is an element the result is "no element".
\<close>

theorem htmlToElement_wrapper_or_first_child:
  "(tag \<noteq> [] \<longrightarrow>
      (\<exists>wrapper. htmlToElement m html (Some tag) = Inr (Wrapper wrapper) \<and> tagName wrapper = tag \<and>
         (if tag = ''template'' then content wrapper else childNodes wrapper) =
           parse_fragment m tag (trim m html))) \<and>
   htmlToElement m html None =
     Inr (Child (firstElementChild (parse_fragment m ''template'' (trim m html)))) \<and>
   (parse_fragment m ''template'' (trim m html) = pre @ ElementNode t attrs children # rest \<and>
    (\<forall>n\<in>set pre. \<not> is_element_node n) \<longrightarrow>
      htmlToElement m html None = Inr (Child (Some (ElementNode t attrs children)))) \<and>
   ((\<forall>n\<in>set (parse_fragment m ''template'' (trim m html)). \<not> is_element_node n) \<longrightarrow>
      htmlToElement m html None = Inr (Child None))"
proof -
  have none: "htmlToElement m html None =
     Inr (Child (firstElementChild (parse_fragment m ''template'' (trim m html))))"
    by (simp add: htmlToElement_def createElement_def set_innerHTML_def)
  have wrap: "\<exists>wrapper. htmlToElement m html (Some tag) = Inr (Wrapper wrapper) \<and> tagName wrapper = tag \<and>
         (if tag = ''template'' then content wrapper else childNodes wrapper) =
           parse_fragment m tag (trim m html)" if "tag \<noteq> []"
    using that by (simp add: htmlToElement_def createElement_def set_innerHTML_def)
  show ?thesis
    using wrap none firstElementChild_first [of pre t attrs children rest]
      firstElementChild_none [of "parse_fragment m ''template'' (trim m html)"]
    by (simp only:) simp
qed

theorem htmlToElement_wrapper_or_first_child_witness:
  "(''ul'' \<noteq> [] \<and>
    htmlToElement example_markup ''  <li>a</li><li>b</li> '' (Some ''ul'') =
      Inr (Wrapper \<lparr>tagName = ''ul'',
         childNodes = [ElementNode ''li'' [] [TextNode ''a''], ElementNode ''li'' [] [TextNode ''b'']],
         content = []\<rparr>)) \<and>
   parse_fragment example_markup ''template'' (trim example_markup ''  <li>a</li><li>b</li> '') =
      [] @ ElementNode ''li'' [] [TextNode ''a''] # [ElementNode ''li'' [] [TextNode ''b'']] \<and>
   htmlToElement example_markup ''  <li>a</li><li>b</li> '' None =
      Inr (Child (Some (ElementNode ''li'' [] [TextNode ''a'']))) \<and>
   parse_fragment example_markup ''template'' (trim example_markup ''just text'') =
      [TextNode ''just text''] \<and>
   htmlToElement example_markup ''just text'' None = Inr (Child None)"
proof -
  let ?html = "''  <li>a</li><li>b</li> ''"
  have tr: "trim example_markup ?html = ''<li>a</li><li>b</li>''"
    by (simp add: example_markup_def is_ascii_space_def)
  have p: "parse_fragment example_markup ''template'' (trim example_markup ?html) =
      [] @ ElementNode ''li'' [] [TextNode ''a''] # [ElementNode ''li'' [] [TextNode ''b'']]"
    unfolding tr by (simp add: example_markup_def)
  have pu: "parse_fragment example_markup ''ul'' (trim example_markup ?html) =
      [ElementNode ''li'' [] [TextNode ''a''], ElementNode ''li'' [] [TextNode ''b'']]"
    unfolding tr by (simp add: example_markup_def)
  have pt: "parse_fragment example_markup ''template'' (trim example_markup ''just text'') =
      [TextNode ''just text'']"
    by (simp add: example_markup_def is_ascii_space_def)
  then have t: "\<forall>n\<in>set (parse_fragment example_markup ''template'' (trim example_markup ''just text'')).
      \<not> is_element_node n"
    by simp
  have ul: "''ul'' \<noteq> []" by simp
  note inst = htmlToElement_wrapper_or_first_child [of "''ul''" example_markup ?html "[]" "''li''" "[]"
      "[TextNode ''a'']" "[ElementNode ''li'' [] [TextNode ''b'']]"]
  from inst [THEN conjunct1, rule_format, OF ul] obtain wrapper where
    w: "htmlToElement example_markup ?html (Some ''ul'') = Inr (Wrapper wrapper)"
      "tagName wrapper = ''ul''"
      "(if ''ul'' = ''template'' then content wrapper else childNodes wrapper) =
           parse_fragment example_markup ''ul'' (trim example_markup ?html)"
    by - (erule exE, elim conjE, rule that; assumption)
  have "htmlToElement example_markup ?html (Some ''ul'') =
      Inr (Wrapper \<lparr>tagName = ''ul'',
         childNodes = [ElementNode ''li'' [] [TextNode ''a''], ElementNode ''li'' [] [TextNode ''b'']],
         content = []\<rparr>)"
    by (simp add: htmlToElement_def createElement_def set_innerHTML_def pu)
  moreover have "htmlToElement example_markup ?html None =
      Inr (Child (Some (ElementNode ''li'' [] [TextNode ''a''])))"
    using inst [THEN conjunct2, THEN conjunct2, THEN conjunct1] p by simp
  moreover have "htmlToElement example_markup ''just text'' None = Inr (Child None)"
    using htmlToElement_wrapper_or_first_child [of "''ul''" example_markup "''just text''",
        THEN conjunct2, THEN conjunct2, THEN conjunct2] t by blast
  ultimately show ?thesis using ul p pt by (simp only: simp_thms)
qed

section \<open>Fades: the arithmetic of the steps\<close>

lemma clamp01_range: "t \<noteq> NaN \<Longrightarrow> \<exists>c. clamp01 t = Fin c \<and> 0 \<le> c \<and> c \<le> 1"
  by (cases t) (auto simp: clamp01_def num_gt_def Let_def)

lemma track_in_0: "track_in v 0 = v"
  by (simp add: track_in_def)

lemma track_in_Suc: "track_in v (Suc n) = step_in (track_in v n)"
  by (simp add: track_in_def)

lemma track_in_shift: "track_in v (Suc n) = track_in (step_in v) n"
  by (simp add: track_in_def funpow_swap1)

lemma crossing_in:
  assumes "- (2 ^ 40) \<le> x" and "x \<le> 2 ^ 40" and "c \<le> 1"
  shows "\<exists>n. 0 < n \<and>
     (\<forall>k<n. \<exists>y y'. track_in (Fin x) k = Fin y \<and> track_in (Fin x) (Suc k) = Fin y' \<and>
          y + 1 / 20 \<le> y' \<and> y' \<le> y + 3 / 20 \<and> (Suc k < n \<longrightarrow> y' \<le> c)) \<and>
     (\<exists>z. track_in (Fin x) n = Fin z \<and> c < z)"
  using assms
proof (induction "nat \<lceil>(c - x) * 20\<rceil>" arbitrary: x rule: less_induct)
  case less
  have "\<bar>x\<bar> \<le> 2 ^ 40" using less.prems by (simp add: abs_le_iff)
  from step_in_bounds [OF this] obtain y
    where y: "step_in (Fin x) = Fin y" "x + 1 / 20 \<le> y" "y \<le> x + 3 / 20"
    by blast
  show ?case
  proof (cases "c < y")
    case True
    have "\<forall>k<Suc 0. \<exists>u u'. track_in (Fin x) k = Fin u \<and> track_in (Fin x) (Suc k) = Fin u' \<and>
          u + 1 / 20 \<le> u' \<and> u' \<le> u + 3 / 20 \<and> (Suc k < Suc 0 \<longrightarrow> u' \<le> c)"
      using y by (simp add: track_in_0 track_in_Suc)
    moreover have "\<exists>z. track_in (Fin x) (Suc 0) = Fin z \<and> c < z"
      using y True by (simp add: track_in_0 track_in_Suc)
    ultimately show ?thesis by blast
  next
    case False
    then have yc: "y \<le> c" by simp
    have "(c - y) * 20 \<le> (c - x) * 20 - 1" using y(2) by simp
    then have "\<lceil>(c - y) * 20\<rceil> \<le> \<lceil>(c - x) * 20\<rceil> - 1"
      by (metis ceiling_diff_one ceiling_mono)
    moreover have "1 \<le> (c - x) * 20" using y(2) yc by simp
    then have "1 \<le> \<lceil>(c - x) * 20\<rceil>" by linarith
    ultimately have m: "nat \<lceil>(c - y) * 20\<rceil> < nat \<lceil>(c - x) * 20\<rceil>" by linarith
    have "- (2 ^ 40) \<le> y" "y \<le> 2 ^ 40"
      using y(2) yc less.prems by simp_all
    from less.hyps [OF m this less.prems(3)] obtain n where n: "0 < n"
      "\<forall>k<n. \<exists>u u'. track_in (Fin y) k = Fin u \<and> track_in (Fin y) (Suc k) = Fin u' \<and>
          u + 1 / 20 \<le> u' \<and> u' \<le> u + 3 / 20 \<and> (Suc k < n \<longrightarrow> u' \<le> c)"
      "\<exists>z. track_in (Fin y) n = Fin z \<and> c < z"
      by blast
    have sh: "track_in (Fin x) (Suc k) = track_in (Fin y) k" for k
      by (simp only: track_in_shift y(1))
    have "\<exists>u u'. track_in (Fin x) k = Fin u \<and> track_in (Fin x) (Suc k) = Fin u' \<and>
          u + 1 / 20 \<le> u' \<and> u' \<le> u + 3 / 20 \<and> (Suc k < Suc n \<longrightarrow> u' \<le> c)"
      if "k < Suc n" for k
    proof (cases k)
      case 0
      then show ?thesis using y yc by (simp add: track_in_0 track_in_Suc)
    next
      case (Suc k')
      then have "k' < n" using that by simp
      with n(2) show ?thesis unfolding Suc sh by simp
    qed
    moreover have "\<exists>z. track_in (Fin x) (Suc n) = Fin z \<and> c < z"
      using n(3) unfolding sh .
    ultimately show ?thesis by blast
  qed
qed

lemma track_out_0: "track_out v 0 = v"
  by (simp add: track_out_def)

lemma track_out_Suc: "track_out v (Suc n) = step_out (track_out v n)"
  by (simp add: track_out_def)

lemma track_out_shift: "track_out v (Suc n) = track_out (step_out v) n"
  by (simp add: track_out_def funpow_swap1)

lemma crossing_out:
  assumes "- (2 ^ 40) \<le> x" and "x \<le> 2 ^ 40" and "0 \<le> c"
  shows "\<exists>n. 0 < n \<and>
     (\<forall>k<n. \<exists>y y'. track_out (Fin x) k = Fin y \<and> track_out (Fin x) (Suc k) = Fin y' \<and>
          y - 3 / 20 \<le> y' \<and> y' \<le> y - 1 / 20 \<and> (Suc k < n \<longrightarrow> c \<le> y')) \<and>
     (\<exists>z. track_out (Fin x) n = Fin z \<and> z < c)"
  using assms
proof (induction "nat \<lceil>(x - c) * 20\<rceil>" arbitrary: x rule: less_induct)
  case less
  have "\<bar>x\<bar> \<le> 2 ^ 40" using less.prems by (simp add: abs_le_iff)
  from step_out_bounds [OF this] obtain y
    where y: "step_out (Fin x) = Fin y" "x - 3 / 20 \<le> y" "y \<le> x - 1 / 20"
    by blast
  show ?case
  proof (cases "y < c")
    case True
    have "\<forall>k<Suc 0. \<exists>u u'. track_out (Fin x) k = Fin u \<and> track_out (Fin x) (Suc k) = Fin u' \<and>
          u - 3 / 20 \<le> u' \<and> u' \<le> u - 1 / 20 \<and> (Suc k < Suc 0 \<longrightarrow> c \<le> u')"
      using y by (simp add: track_out_0 track_out_Suc)
    moreover have "\<exists>z. track_out (Fin x) (Suc 0) = Fin z \<and> z < c"
      using y True by (simp add: track_out_0 track_out_Suc)
    ultimately show ?thesis by blast
  next
    case False
    then have yc: "c \<le> y" by simp
    have "(y - c) * 20 \<le> (x - c) * 20 - 1" using y(3) by simp
    then have "\<lceil>(y - c) * 20\<rceil> \<le> \<lceil>(x - c) * 20\<rceil> - 1"
      by (metis ceiling_diff_one ceiling_mono)
    moreover have "1 \<le> (x - c) * 20" using y(3) yc by simp
    then have "1 \<le> \<lceil>(x - c) * 20\<rceil>" by linarith
    ultimately have m: "nat \<lceil>(y - c) * 20\<rceil> < nat \<lceil>(x - c) * 20\<rceil>" by linarith
    have "- (2 ^ 40) \<le> y" "y \<le> 2 ^ 40"
      using y(3) yc less.prems by simp_all
    from less.hyps [OF m this less.prems(3)] obtain n where n: "0 < n"
      "\<forall>k<n. \<exists>u u'. track_out (Fin y) k = Fin u \<and> track_out (Fin y) (Suc k) = Fin u' \<and>
          u - 3 / 20 \<le> u' \<and> u' \<le> u - 1 / 20 \<and> (Suc k < n \<longrightarrow> c \<le> u')"
      "\<exists>z. track_out (Fin y) n = Fin z \<and> z < c"
      by blast
    have sh: "track_out (Fin x) (Suc k) = track_out (Fin y) k" for k
      by (simp only: track_out_shift y(1))
    have "\<exists>u u'. track_out (Fin x) k = Fin u \<and> track_out (Fin x) (Suc k) = Fin u' \<and>
          u - 3 / 20 \<le> u' \<and> u' \<le> u - 1 / 20 \<and> (Suc k < Suc n \<longrightarrow> c \<le> u')"
      if "k < Suc n" for k
    proof (cases k)
      case 0
      then show ?thesis using y yc by (simp add: track_out_0 track_out_Suc)
    next
      case (Suc k')
      then have "k' < n" using that by simp
      with n(2) show ?thesis unfolding Suc sh by simp
    qed
    moreover have "\<exists>z. track_out (Fin x) (Suc n) = Fin z \<and> z < c"
      using n(3) unfolding sh .
    ultimately show ?thesis by blast
  qed
qed

section \<open>Fades: the timer callbacks run by run\<close>

lemma ticks_add: "ticks i (m + n) s = ticks i n (ticks i m s)"
  by (induction n) (auto split: option.splits)

lemma ticks_stopped: "fire i s = None \<Longrightarrow> ticks i n s = s"
  by (induction n) simp_all

lemma ticks_frozen:
  assumes "fire i (ticks i n s) = None" and "n \<le> m"
  shows "ticks i m s = ticks i n s"
proof -
  from assms(2) obtain d where "m = n + d" using le_Suc_ex by blast
  then show ?thesis using assms(1) by (simp add: ticks_add ticks_stopped)
qed

lemma fire_inactive: "i < length (timers s) \<Longrightarrow> \<not> active (timers s ! i) \<Longrightarrow> fire i s = None"
  by (simp add: fire_def)

lemma tick_fadeIn_continue:
  assumes "\<not> num_gt (step_in (opacity tm)) (toOpacity tm)"
  shows "timers (tick_fadeIn i tm s) = (timers s)[i := tm\<lparr>opacity := step_in (opacity tm)\<rparr>]"
    and "style_opacity (doc (tick_fadeIn i tm s) (element tm)) = step_in (opacity tm)"
    and "num_gt (toOpacity tm) (Fin 0) \<Longrightarrow> \<not> hidden (tick_fadeIn i tm s) (element tm)"
  using assms
  by (simp_all add: tick_fadeIn_def Let_def show_element_def set_opacity_def hidden_def
      classList_remove_def)

lemma tick_fadeIn_settle:
  assumes "num_gt (step_in (opacity tm)) (toOpacity tm)"
  shows "timers (tick_fadeIn i tm s) =
      (timers s)[i := tm\<lparr>opacity := step_in (opacity tm), signal := Resolved, active := False\<rparr>]"
    and "style_opacity (doc (tick_fadeIn i tm s) el) = style_opacity (doc s el)"
    and "num_gt (toOpacity tm) (Fin 0) \<Longrightarrow> \<not> hidden (tick_fadeIn i tm s) (element tm)"
  using assms
  by (simp_all add: tick_fadeIn_def Let_def show_element_def hidden_def classList_remove_def)

lemma fadeIn_run_prefix:
  assumes i: "i < length (timers s0)" and tm: "timers s0 ! i = tm0"
    and k: "fade tm0 = FadeIn" and a: "active tm0"
    and nocross: "\<forall>j. 0 < j \<and> j \<le> k \<longrightarrow> \<not> num_gt (track_in (opacity tm0) j) (toOpacity tm0)"
  shows "timers (ticks i k s0) = (timers s0)[i := tm0\<lparr>opacity := track_in (opacity tm0) k\<rparr>] \<and>
     (0 < k \<longrightarrow> style_opacity (doc (ticks i k s0) (element tm0)) = track_in (opacity tm0) k \<and>
        (num_gt (toOpacity tm0) (Fin 0) \<longrightarrow> \<not> hidden (ticks i k s0) (element tm0)))"
  using nocross
proof (induction k)
  case 0
  have "(timers s0)[i := tm0] = timers s0"
    unfolding tm [symmetric] by simp
  then show ?case by (simp add: track_in_0)
next
  case (Suc k)
  let ?s = "ticks i k s0"
  let ?tm = "tm0\<lparr>opacity := track_in (opacity tm0) k\<rparr>"
  have IH: "timers ?s = (timers s0)[i := ?tm]" using Suc by simp
  then have t: "i < length (timers ?s)" "timers ?s ! i = ?tm" using i by simp_all
  have f: "fire i ?s = Some (tick_fadeIn i ?tm ?s)"
    using t k a by (simp add: fire_def)
  have "\<not> num_gt (track_in (opacity tm0) (Suc k)) (toOpacity tm0)"
    using Suc.prems by blast
  then have nc: "\<not> num_gt (step_in (opacity ?tm)) (toOpacity ?tm)"
    by (simp add: track_in_Suc)
  show ?case
    using tick_fadeIn_continue [OF nc, of i ?s] f IH
    by (simp add: track_in_Suc)
qed

lemma fadeIn_run_settle:
  assumes i: "i < length (timers s0)" and tm: "timers s0 ! i = tm0"
    and k: "fade tm0 = FadeIn" and a: "active tm0"
    and nocross: "\<forall>j. 0 < j \<and> j \<le> k \<longrightarrow> \<not> num_gt (track_in (opacity tm0) j) (toOpacity tm0)"
    and cross: "num_gt (track_in (opacity tm0) (Suc k)) (toOpacity tm0)"
  shows "timers (ticks i (Suc k) s0) =
      (timers s0)[i := tm0\<lparr>opacity := track_in (opacity tm0) (Suc k), signal := Resolved, active := False\<rparr>]"
    and "style_opacity (doc (ticks i (Suc k) s0) el) = style_opacity (doc (ticks i k s0) el)"
    and "num_gt (toOpacity tm0) (Fin 0) \<Longrightarrow> \<not> hidden (ticks i (Suc k) s0) (element tm0)"
    and "fire i (ticks i (Suc k) s0) = None"
proof -
  let ?s = "ticks i k s0"
  let ?tm = "tm0\<lparr>opacity := track_in (opacity tm0) k\<rparr>"
  have IH: "timers ?s = (timers s0)[i := ?tm]"
    using fadeIn_run_prefix [OF i tm k a nocross] by simp
  then have t: "i < length (timers ?s)" "timers ?s ! i = ?tm" using i by simp_all
  have f: "fire i ?s = Some (tick_fadeIn i ?tm ?s)"
    using t k a by (simp add: fire_def)
  have c: "num_gt (step_in (opacity ?tm)) (toOpacity ?tm)"
    using cross by (simp add: track_in_Suc)
  show tms: "timers (ticks i (Suc k) s0) =
      (timers s0)[i := tm0\<lparr>opacity := track_in (opacity tm0) (Suc k), signal := Resolved, active := False\<rparr>]"
    using tick_fadeIn_settle(1) [OF c, of i ?s] f IH by (simp add: track_in_Suc)
  show "style_opacity (doc (ticks i (Suc k) s0) el) = style_opacity (doc (ticks i k s0) el)"
    using tick_fadeIn_settle(2) [OF c, of i ?s el] f by simp
  show "num_gt (toOpacity tm0) (Fin 0) \<Longrightarrow> \<not> hidden (ticks i (Suc k) s0) (element tm0)"
    using tick_fadeIn_settle(3) [OF c, of i ?s] f by simp
  show "fire i (ticks i (Suc k) s0) = None"
    using i by (simp only: fire_def tms) simp
qed

lemma clamp01_Fin: "clamp01 t = Fin c \<Longrightarrow> 0 \<le> c \<and> c \<le> 1"
  by (cases t) (auto simp: clamp01_def num_gt_def Let_def split: if_splits)


lemma fadeIn_single:
  "fadeIn h (Single el) t dl s =
     (Inr (TimerPromise (length (timers s))),
      s\<lparr>timers := timers s @
          [\<lparr>fade = FadeIn, element = el, opacity = opacity_of s el, toOpacity = clamp01 t,
            delay = dl, active = True, signal = Pending\<rparr>]\<rparr>)"
  by (simp add: fadeIn_def fadeIn_element_def start_fade_def new_timer_def)

lemma fadeIn_run:
  assumes start: "opacity_of s el = Fin x" and lo: "- (2 ^ 40) \<le> x" and hi: "x \<le> 2 ^ 40"
    and target: "clamp01 t = Fin c" and i: "i = length (timers s)"
  shows "\<exists>s0 n. fadeIn h (Single el) t dl s = (Inr (TimerPromise i), s0) \<and> doc s0 = doc s \<and> 0 < n \<and>
     (\<forall>k\<le>n. i < length (timers (ticks i k s0))) \<and>
     (\<forall>k<n. active (timers (ticks i k s0) ! i) \<and> signal (timers (ticks i k s0) ! i) = Pending \<and>
        opacity (timers (ticks i k s0) ! i) = track_in (Fin x) k) \<and>
     \<not> active (timers (ticks i n s0) ! i) \<and> signal (timers (ticks i n s0) ! i) = Resolved \<and>
     opacity (timers (ticks i n s0) ! i) = track_in (Fin x) n \<and>
     (\<forall>k<n. \<exists>y y'. track_in (Fin x) k = Fin y \<and> track_in (Fin x) (Suc k) = Fin y' \<and>
          y + 1 / 20 \<le> y' \<and> y' \<le> y + 3 / 20 \<and> (Suc k < n \<longrightarrow> y' \<le> c)) \<and>
     (\<exists>z. track_in (Fin x) n = Fin z \<and> c < z) \<and>
     (\<forall>k. 0 < k \<and> k < n \<longrightarrow> style_opacity (doc (ticks i k s0) el) = track_in (Fin x) k) \<and>
     style_opacity (doc (ticks i n s0) el) = style_opacity (doc (ticks i (n - 1) s0) el) \<and>
     (0 < c \<longrightarrow> (\<forall>k. 0 < k \<and> k \<le> n \<longrightarrow> \<not> hidden (ticks i k s0) el)) \<and>
     fire i (ticks i n s0) = None"
proof -
  define tm0 where "tm0 = \<lparr>fade = FadeIn, element = el, opacity = Fin x, toOpacity = Fin c,
            delay = dl, active = True, signal = Pending\<rparr>"
  define s0 where "s0 = s\<lparr>timers := timers s @ [tm0]\<rparr>"
  have call: "fadeIn h (Single el) t dl s = (Inr (TimerPromise i), s0)"
    by (simp add: fadeIn_single s0_def tm0_def start target i)
  have il: "i < length (timers s0)" and tm: "timers s0 ! i = tm0"
    by (simp_all add: s0_def i)
  have k: "fade tm0 = FadeIn" and a: "active tm0" and [simp]: "opacity tm0 = Fin x"
    "toOpacity tm0 = Fin c" "element tm0 = el" "signal tm0 = Pending"
    by (simp_all add: tm0_def)
  have c1: "c \<le> 1" using clamp01_Fin [OF target] by simp
  from crossing_in [OF lo hi c1] obtain n where n: "0 < n"
    "\<forall>k<n. \<exists>y y'. track_in (Fin x) k = Fin y \<and> track_in (Fin x) (Suc k) = Fin y' \<and>
          y + 1 / 20 \<le> y' \<and> y' \<le> y + 3 / 20 \<and> (Suc k < n \<longrightarrow> y' \<le> c)"
    "\<exists>z. track_in (Fin x) n = Fin z \<and> c < z"
    by blast
  obtain m where m: "n = Suc m" using n(1) by (cases n) auto
  have nocross: "\<not> num_gt (track_in (opacity tm0) j) (toOpacity tm0)"
    if jp: "0 < j" and jm: "j \<le> m" for j
  proof -
    obtain j' where j': "j = Suc j'" using jp by (cases j) auto
    then have "j' < n" "Suc j' < n" using jm m by simp_all
    with n(2) obtain y' where "track_in (Fin x) (Suc j') = Fin y'" "y' \<le> c" by blast
    then show ?thesis by (simp add: j' num_gt_def)
  qed
  have pre: "timers (ticks i k s0) = (timers s0)[i := tm0\<lparr>opacity := track_in (Fin x) k\<rparr>] \<and>
     (0 < k \<longrightarrow> style_opacity (doc (ticks i k s0) el) = track_in (Fin x) k \<and>
        (num_gt (Fin c) (Fin 0) \<longrightarrow> \<not> hidden (ticks i k s0) el))" if "k \<le> m" for k
  proof -
    have "\<forall>j. 0 < j \<and> j \<le> k \<longrightarrow> \<not> num_gt (track_in (opacity tm0) j) (toOpacity tm0)"
      using nocross that by simp
    from fadeIn_run_prefix [OF il tm k a this] show ?thesis by simp
  qed
  have nc: "\<forall>j. 0 < j \<and> j \<le> m \<longrightarrow> \<not> num_gt (track_in (opacity tm0) j) (toOpacity tm0)"
    using nocross by simp
  have cr: "num_gt (track_in (opacity tm0) (Suc m)) (toOpacity tm0)"
    using n(3) by (auto simp: m num_gt_def)
  note fin = fadeIn_run_settle [OF il tm k a nc cr]
  have len: "\<forall>k\<le>n. i < length (timers (ticks i k s0))"
  proof (intro allI impI)
    fix k assume "k \<le> n"
    then consider "k \<le> m" | "k = Suc m" using m by linarith
    then show "i < length (timers (ticks i k s0))"
      using pre fin(1) il by cases simp_all
  qed
  have run: "\<forall>k<n. active (timers (ticks i k s0) ! i) \<and> signal (timers (ticks i k s0) ! i) = Pending \<and>
        opacity (timers (ticks i k s0) ! i) = track_in (Fin x) k"
    using pre il a by (simp add: m)
  have fin': "\<not> active (timers (ticks i n s0) ! i)" "signal (timers (ticks i n s0) ! i) = Resolved"
     "opacity (timers (ticks i n s0) ! i) = track_in (Fin x) n"
    using fin(1) il by (simp_all add: m)
  have sty: "\<forall>k. 0 < k \<and> k < n \<longrightarrow> style_opacity (doc (ticks i k s0) el) = track_in (Fin x) k"
    using pre by (simp add: m)
  have keep: "style_opacity (doc (ticks i n s0) el) = style_opacity (doc (ticks i (n - 1) s0) el)"
    using fin(2) [of el] by (simp add: m)
  have vis: "0 < c \<longrightarrow> (\<forall>k. 0 < k \<and> k \<le> n \<longrightarrow> \<not> hidden (ticks i k s0) el)"
  proof (intro allI impI)
    fix k assume c: "0 < c" and "0 < k \<and> k \<le> n"
    then consider "0 < k" "k \<le> m" | "k = Suc m" using m by linarith
    then show "\<not> hidden (ticks i k s0) el"
    proof cases
      case 1
      then show ?thesis using pre [of k] c by (simp add: num_gt_def)
    next
      case 2
      then show ?thesis using fin(3) c by (simp add: num_gt_def)
    qed
  qed
  have stop: "fire i (ticks i n s0) = None" using fin(4) by (simp add: m)
  have "doc s0 = doc s" by (simp add: s0_def)
  with call n(1) len run fin' n(2) n(3) sty keep vis stop show ?thesis by blast
qed

lemma tick_fadeOut_continue:
  assumes "\<not> num_lt (step_out (opacity tm)) (toOpacity tm)"
  shows "timers (tick_fadeOut i tm s) = (timers s)[i := tm\<lparr>opacity := step_out (opacity tm)\<rparr>]"
    and "style_opacity (doc (tick_fadeOut i tm s) (element tm)) = step_out (opacity tm)"
    and "classList (doc (tick_fadeOut i tm s) el) = classList (doc s el)"
  using assms
  by (simp_all add: tick_fadeOut_def Let_def set_opacity_def)

lemma tick_fadeOut_settle:
  assumes "num_lt (step_out (opacity tm)) (toOpacity tm)"
  shows "timers (tick_fadeOut i tm s) =
      (timers s)[i := tm\<lparr>opacity := step_out (opacity tm), signal := Resolved, active := False\<rparr>]"
    and "style_opacity (doc (tick_fadeOut i tm s) el) = style_opacity (doc s el)"
    and "hidden (tick_fadeOut i tm s) (element tm)"
  using assms
  by (simp_all add: tick_fadeOut_def Let_def hide_element_def hidden_def classList_add_def)

lemma fadeOut_run_prefix:
  assumes i: "i < length (timers s0)" and tm: "timers s0 ! i = tm0"
    and k: "fade tm0 = FadeOut" and a: "active tm0"
    and nocross: "\<forall>j. 0 < j \<and> j \<le> k \<longrightarrow> \<not> num_lt (track_out (opacity tm0) j) (toOpacity tm0)"
  shows "timers (ticks i k s0) = (timers s0)[i := tm0\<lparr>opacity := track_out (opacity tm0) k\<rparr>] \<and>
     (0 < k \<longrightarrow> style_opacity (doc (ticks i k s0) (element tm0)) = track_out (opacity tm0) k) \<and>
     classList (doc (ticks i k s0) el) = classList (doc s0 el)"
  using nocross
proof (induction k)
  case 0
  have "(timers s0)[i := tm0] = timers s0"
    unfolding tm [symmetric] by simp
  then show ?case by (simp add: track_out_0)
next
  case (Suc k)
  let ?s = "ticks i k s0"
  let ?tm = "tm0\<lparr>opacity := track_out (opacity tm0) k\<rparr>"
  have IH: "timers ?s = (timers s0)[i := ?tm]" "classList (doc ?s el) = classList (doc s0 el)"
    using Suc by simp_all
  then have t: "i < length (timers ?s)" "timers ?s ! i = ?tm" using i by simp_all
  have f: "fire i ?s = Some (tick_fadeOut i ?tm ?s)"
    using t k a by (simp add: fire_def)
  have "\<not> num_lt (track_out (opacity tm0) (Suc k)) (toOpacity tm0)"
    using Suc.prems by blast
  then have nc: "\<not> num_lt (step_out (opacity ?tm)) (toOpacity ?tm)"
    by (simp add: track_out_Suc)
  show ?case
    using tick_fadeOut_continue(1,2) [OF nc, of i ?s]
      tick_fadeOut_continue(3) [OF nc, of i ?s el] f IH
    by (simp add: track_out_Suc)
qed

lemma fadeOut_run_settle:
  assumes i: "i < length (timers s0)" and tm: "timers s0 ! i = tm0"
    and k: "fade tm0 = FadeOut" and a: "active tm0"
    and nocross: "\<forall>j. 0 < j \<and> j \<le> k \<longrightarrow> \<not> num_lt (track_out (opacity tm0) j) (toOpacity tm0)"
    and cross: "num_lt (track_out (opacity tm0) (Suc k)) (toOpacity tm0)"
  shows "timers (ticks i (Suc k) s0) =
      (timers s0)[i := tm0\<lparr>opacity := track_out (opacity tm0) (Suc k), signal := Resolved, active := False\<rparr>]"
    and "style_opacity (doc (ticks i (Suc k) s0) el) = style_opacity (doc (ticks i k s0) el)"
    and "hidden (ticks i (Suc k) s0) (element tm0)"
    and "fire i (ticks i (Suc k) s0) = None"
proof -
  let ?s = "ticks i k s0"
  let ?tm = "tm0\<lparr>opacity := track_out (opacity tm0) k\<rparr>"
  have IH: "timers ?s = (timers s0)[i := ?tm]"
    using fadeOut_run_prefix [OF i tm k a nocross] by simp
  then have t: "i < length (timers ?s)" "timers ?s ! i = ?tm" using i by simp_all
  have f: "fire i ?s = Some (tick_fadeOut i ?tm ?s)"
    using t k a by (simp add: fire_def)
  have c: "num_lt (step_out (opacity ?tm)) (toOpacity ?tm)"
    using cross by (simp add: track_out_Suc)
  show tms: "timers (ticks i (Suc k) s0) =
      (timers s0)[i := tm0\<lparr>opacity := track_out (opacity tm0) (Suc k), signal := Resolved, active := False\<rparr>]"
    using tick_fadeOut_settle(1) [OF c, of i ?s] f IH by (simp add: track_out_Suc)
  show "style_opacity (doc (ticks i (Suc k) s0) el) = style_opacity (doc (ticks i k s0) el)"
    using tick_fadeOut_settle(2) [OF c, of i ?s el] f by simp
  show "hidden (ticks i (Suc k) s0) (element tm0)"
    using tick_fadeOut_settle(3) [OF c, of i ?s] f by simp
  show "fire i (ticks i (Suc k) s0) = None"
    using i by (simp only: fire_def tms) simp
qed

lemma fadeOut_single:
  "fadeOut h (Single el) t dl s =
     (Inr (TimerPromise (length (timers s))),
      s\<lparr>timers := timers s @
          [\<lparr>fade = FadeOut, element = el, opacity = opacity_of s el, toOpacity = clamp01 t,
            delay = dl, active = True, signal = Pending\<rparr>]\<rparr>)"
  by (simp add: fadeOut_def fadeOut_element_def start_fade_def new_timer_def)

lemma fadeOut_run:
  assumes start: "opacity_of s el = Fin x" and lo: "- (2 ^ 40) \<le> x" and hi: "x \<le> 2 ^ 40"
    and target: "clamp01 t = Fin c" and i: "i = length (timers s)"
  shows "\<exists>s0 n. fadeOut h (Single el) t dl s = (Inr (TimerPromise i), s0) \<and> doc s0 = doc s \<and> 0 < n \<and>
     (\<forall>k\<le>n. i < length (timers (ticks i k s0))) \<and>
     (\<forall>k<n. active (timers (ticks i k s0) ! i) \<and> signal (timers (ticks i k s0) ! i) = Pending \<and>
        opacity (timers (ticks i k s0) ! i) = track_out (Fin x) k) \<and>
     \<not> active (timers (ticks i n s0) ! i) \<and> signal (timers (ticks i n s0) ! i) = Resolved \<and>
     opacity (timers (ticks i n s0) ! i) = track_out (Fin x) n \<and>
     (\<forall>k<n. \<exists>y y'. track_out (Fin x) k = Fin y \<and> track_out (Fin x) (Suc k) = Fin y' \<and>
          y - 3 / 20 \<le> y' \<and> y' \<le> y - 1 / 20 \<and> (Suc k < n \<longrightarrow> c \<le> y')) \<and>
     (\<exists>z. track_out (Fin x) n = Fin z \<and> z < c) \<and>
     (\<forall>k. 0 < k \<and> k < n \<longrightarrow> style_opacity (doc (ticks i k s0) el) = track_out (Fin x) k) \<and>
     style_opacity (doc (ticks i n s0) el) = style_opacity (doc (ticks i (n - 1) s0) el) \<and>
     (\<forall>k<n. hidden (ticks i k s0) el = hidden s el) \<and>
     hidden (ticks i n s0) el \<and>
     fire i (ticks i n s0) = None"
proof -
  define tm0 where "tm0 = \<lparr>fade = FadeOut, element = el, opacity = Fin x, toOpacity = Fin c,
            delay = dl, active = True, signal = Pending\<rparr>"
  define s0 where "s0 = s\<lparr>timers := timers s @ [tm0]\<rparr>"
  have call: "fadeOut h (Single el) t dl s = (Inr (TimerPromise i), s0)"
    by (simp add: fadeOut_single s0_def tm0_def start target i)
  have il: "i < length (timers s0)" and tm: "timers s0 ! i = tm0"
    by (simp_all add: s0_def i)
  have k: "fade tm0 = FadeOut" and a: "active tm0" and [simp]: "opacity tm0 = Fin x"
    "toOpacity tm0 = Fin c" "element tm0 = el" "signal tm0 = Pending"
    by (simp_all add: tm0_def)
  have c0: "0 \<le> c" using clamp01_Fin [OF target] by simp
  from crossing_out [OF lo hi c0] obtain n where n: "0 < n"
    "\<forall>k<n. \<exists>y y'. track_out (Fin x) k = Fin y \<and> track_out (Fin x) (Suc k) = Fin y' \<and>
          y - 3 / 20 \<le> y' \<and> y' \<le> y - 1 / 20 \<and> (Suc k < n \<longrightarrow> c \<le> y')"
    "\<exists>z. track_out (Fin x) n = Fin z \<and> z < c"
    by blast
  obtain m where m: "n = Suc m" using n(1) by (cases n) auto
  have nocross: "\<not> num_lt (track_out (opacity tm0) j) (toOpacity tm0)"
    if jp: "0 < j" and jm: "j \<le> m" for j
  proof -
    obtain j' where j': "j = Suc j'" using jp by (cases j) auto
    then have "j' < n" "Suc j' < n" using jm m by simp_all
    with n(2) obtain y' where "track_out (Fin x) (Suc j') = Fin y'" "c \<le> y'" by blast
    then show ?thesis by (simp add: j')
  qed
  have pre: "timers (ticks i k s0) = (timers s0)[i := tm0\<lparr>opacity := track_out (Fin x) k\<rparr>] \<and>
     (0 < k \<longrightarrow> style_opacity (doc (ticks i k s0) el) = track_out (Fin x) k) \<and>
     classList (doc (ticks i k s0) el) = classList (doc s0 el)" if "k \<le> m" for k
  proof -
    have "\<forall>j. 0 < j \<and> j \<le> k \<longrightarrow> \<not> num_lt (track_out (opacity tm0) j) (toOpacity tm0)"
      using nocross that by simp
    from fadeOut_run_prefix [OF il tm k a this, of el] show ?thesis by simp
  qed
  have nc: "\<forall>j. 0 < j \<and> j \<le> m \<longrightarrow> \<not> num_lt (track_out (opacity tm0) j) (toOpacity tm0)"
    using nocross by simp
  have cr: "num_lt (track_out (opacity tm0) (Suc m)) (toOpacity tm0)"
    using n(3) by (auto simp: m)
  note fin = fadeOut_run_settle [OF il tm k a nc cr]
  have len: "\<forall>k\<le>n. i < length (timers (ticks i k s0))"
  proof (intro allI impI)
    fix k assume "k \<le> n"
    then consider "k \<le> m" | "k = Suc m" using m by linarith
    then show "i < length (timers (ticks i k s0))"
      using pre fin(1) il by cases simp_all
  qed
  have run: "\<forall>k<n. active (timers (ticks i k s0) ! i) \<and> signal (timers (ticks i k s0) ! i) = Pending \<and>
        opacity (timers (ticks i k s0) ! i) = track_out (Fin x) k"
    using pre il a by (simp add: m)
  have fin': "\<not> active (timers (ticks i n s0) ! i)" "signal (timers (ticks i n s0) ! i) = Resolved"
     "opacity (timers (ticks i n s0) ! i) = track_out (Fin x) n"
    using fin(1) il by (simp_all add: m)
  have sty: "\<forall>k. 0 < k \<and> k < n \<longrightarrow> style_opacity (doc (ticks i k s0) el) = track_out (Fin x) k"
    using pre by (simp add: m)
  have keep: "style_opacity (doc (ticks i n s0) el) = style_opacity (doc (ticks i (n - 1) s0) el)"
    using fin(2) [of el] by (simp add: m)
  have cls: "\<forall>k<n. hidden (ticks i k s0) el = hidden s el"
    using pre by (simp add: m hidden_def s0_def)
  have hid: "hidden (ticks i n s0) el" using fin(3) by (simp add: m)
  have stop: "fire i (ticks i n s0) = None" using fin(4) by (simp add: m)
  have "doc s0 = doc s" by (simp add: s0_def)
  with call n(1) len run fin' n(2) n(3) sty keep cls hid stop show ?thesis by blast
qed

declare ticks.simps(2) [simp del]

section \<open>Fades: the steps of the examples, evaluated\<close>

text \<open>
  The two example fades, \<^verbatim>\<open>fadeIn(el, 1, 50)\<close> from 0 and \<^verbatim>\<open>fadeOut(el, 0, 50)\<close> from 1,
  step by step in binary64. Rounding is evaluated at a given exponent: \<open>rd_at\<close> fixes
  the exponent of a positive value from the two powers of two around it, and the mantissa
  is then a rounded quotient of numerals.
\<close>

lemma ilog2_unique:
  assumes "pow2 k \<le> a" and "a < pow2 (k + 1)"
  shows "ilog2 a = k"
proof -
  have a: "0 < a" using assms(1) pow2_pos [of k] by linarith
  have "pow2 (ilog2 a) \<le> pow2 (k + 1)"
    using pow2_ilog2_le [OF a] assms(2) by linarith
  then have 1: "ilog2 a \<le> k + 1" by (rule pow2_le_imp)
  have "ilog2 a \<noteq> k + 1"
    using pow2_ilog2_le [OF a] assms(2) by auto
  moreover have "pow2 k \<le> pow2 (ilog2 a + 1)"
    using ilog2_upper [OF a] assms(1) by linarith
  then have "k \<le> ilog2 a + 1" by (rule pow2_le_imp)
  moreover have "k \<noteq> ilog2 a + 1"
    using ilog2_upper [OF a] assms(1) by auto
  ultimately show ?thesis using 1 by linarith
qed

lemma floor_rat_numeral: "\<lfloor>numeral a / numeral b :: rat\<rfloor> = numeral a div numeral b"
  using floor_divide_of_int_eq [of "numeral a" "numeral b", where ?'a = rat] by simp

lemma rd_at:
  assumes "0 < q" and "pow2 k \<le> q" and "q < pow2 (k + 1)" and "- 1022 \<le> k" and "k < 1023"
  shows "rd q = Fin (of_int (round_half_even (q / pow2 (k - 52))) * pow2 (k - 52))"
proof -
  have il: "ilog2 q = k" using ilog2_unique [OF assms(2,3)] .
  have e: "max (k - 52) (- 1074) = k - 52" using assms(4) by simp
  let ?m = "round_half_even (q / pow2 (k - 52))"
  have p: "0 < pow2 (k - 52)" by (rule pow2_pos)
  have "q / pow2 (k - 52) < pow2 53"
  proof -
    have "pow2 (k + 1) = pow2 (k - 52) * pow2 53"
      using pow2_add [of "k - 52" 53] by (simp add: add.commute)
    then show ?thesis using assms(3) p by (simp add: field_simps)
  qed
  moreover have "\<bar>of_int ?m - q / pow2 (k - 52)\<bar> \<le> 1 / 2" by (rule round_half_even_err)
  ultimately have "rat_of_int ?m \<le> pow2 53 + 1 / 2" by linarith
  then have "rat_of_int ?m * pow2 (k - 52) \<le> (pow2 53 + 1 / 2) * pow2 (k - 52)"
    using p by (simp add: mult_right_mono)
  also have "\<dots> = pow2 (k + 1) + pow2 (k - 52) / 2"
    using pow2_add [of 53 "k - 52"] by (simp add: field_simps)
  also have "\<dots> < 2 * pow2 (k + 1)"
    using pow2_mono [of "k - 52" "k + 1"] p by simp
  also have "\<dots> = pow2 (k + 2)"
  proof -
    have "pow2 1 = 2" by (simp add: pow2_def)
    then show ?thesis using pow2_add [of "k + 1" 1] by (simp add: add.commute)
  qed
  also have "\<dots> \<le> pow2 1024" using assms(5) by (intro pow2_mono) simp
  finally have "\<not> 2 ^ 1024 \<le> rat_of_int ?m * pow2 (k - 52)" by (simp add: pow2_def)
  then show ?thesis using assms(1) by (simp add: rd_def Let_def il e)
qed

lemma round_half_even_numeral:
  "round_half_even (numeral a / numeral b) =
     (let f = numeral a div numeral b; d = (numeral a / numeral b :: rat) - of_int f
      in if d < 1 / 2 then f else if 1 / 2 < d then f + 1 else if even f then f else f + 1)"
  by (simp only: round_half_even_def floor_rat_numeral)

lemma round_half_even_int: "round_half_even (numeral a) = numeral a"
  by (simp add: round_half_even_def Let_def)

lemma rd_minus: "rd (- q) = num_neg (rd q)"
  by (simp add: rd_def Let_def)

text \<open>
  The roundings that the steps of the two chains need (\<open>rd_val\<close>), and the steps
  themselves: \<open>step_in\<close> from 0 eleven times, \<open>step_out\<close> from 1 eleven times.
\<close>

lemma rd_val_1: "rd 0 = Fin 0"
  by (simp add: rd_def)

lemma rd_val_2: "rd (1) = Fin (1)"
proof -
  have "rd (1) =
      Fin (of_int (round_half_even ((1) / pow2 (0 - 52))) * pow2 (0 - 52))"
    by (rule rd_at) (simp_all add: pow2_def)
  also have "\<dots> = Fin (1)"
    by (simp add: pow2_def round_half_even_numeral round_half_even_int Let_def)
  finally show ?thesis .
qed

lemma rd_val_3: "rd (1 / 10) = Fin (3602879701896397 / 36028797018963968)"
proof -
  have "rd (1 / 10) =
      Fin (of_int (round_half_even ((1 / 10) / pow2 (- 4 - 52))) * pow2 (- 4 - 52))"
    by (rule rd_at) (simp_all add: pow2_def)
  also have "\<dots> = Fin (3602879701896397 / 36028797018963968)"
    by (simp add: pow2_def round_half_even_numeral round_half_even_int Let_def)
  finally show ?thesis .
qed

lemma step_in_at_1: "step_in (Fin (0)) = Fin (3602879701896397 / 36028797018963968)"
proof -
  have "rd ((0) * 10) = rd (0)" by (rule arg_cong [where f = rd]) simp
  then have m: "num_mul (Fin (0)) (Fin 10) = Fin (0)"
    by (simp only: num_mul.simps rd_val_1)
  have "rd ((0) + 1) = rd (1)" by (rule arg_cong [where f = rd]) simp
  then have a: "num_add (Fin (0)) (Fin 1) = Fin (1)"
    by (simp only: num_add.simps num_sub_def num_neg.simps rd_val_2)
  have "num_div (Fin (1)) (Fin 10) = rd ((1) / 10)" by simp
  moreover have "rd ((1) / 10) = rd (1 / 10)" by (rule arg_cong [where f = rd]) simp
  ultimately have d: "num_div (Fin (1)) (Fin 10) = Fin (3602879701896397 / 36028797018963968)"
    by (simp only: rd_val_3)
  show ?thesis by (simp only: step_in_def m a d)
qed

lemma rd_val_4: "rd (18014398509481985 / 18014398509481984) = Fin (1)"
proof -
  have "rd (18014398509481985 / 18014398509481984) =
      Fin (of_int (round_half_even ((18014398509481985 / 18014398509481984) / pow2 (0 - 52))) * pow2 (0 - 52))"
    by (rule rd_at) (simp_all add: pow2_def)
  also have "\<dots> = Fin (1)"
    by (simp add: pow2_def round_half_even_numeral round_half_even_int Let_def)
  finally show ?thesis .
qed

lemma rd_val_5: "rd (2) = Fin (2)"
proof -
  have "rd (2) =
      Fin (of_int (round_half_even ((2) / pow2 (1 - 52))) * pow2 (1 - 52))"
    by (rule rd_at) (simp_all add: pow2_def)
  also have "\<dots> = Fin (2)"
    by (simp add: pow2_def round_half_even_numeral round_half_even_int Let_def)
  finally show ?thesis .
qed

lemma rd_val_6: "rd (1 / 5) = Fin (3602879701896397 / 18014398509481984)"
proof -
  have "rd (1 / 5) =
      Fin (of_int (round_half_even ((1 / 5) / pow2 (- 3 - 52))) * pow2 (- 3 - 52))"
    by (rule rd_at) (simp_all add: pow2_def)
  also have "\<dots> = Fin (3602879701896397 / 18014398509481984)"
    by (simp add: pow2_def round_half_even_numeral round_half_even_int Let_def)
  finally show ?thesis .
qed

lemma step_in_at_2: "step_in (Fin (3602879701896397 / 36028797018963968)) = Fin (3602879701896397 / 18014398509481984)"
proof -
  have "rd ((3602879701896397 / 36028797018963968) * 10) = rd (18014398509481985 / 18014398509481984)" by (rule arg_cong [where f = rd]) simp
  then have m: "num_mul (Fin (3602879701896397 / 36028797018963968)) (Fin 10) = Fin (1)"
    by (simp only: num_mul.simps rd_val_4)
  have "rd ((1) + 1) = rd (2)" by (rule arg_cong [where f = rd]) simp
  then have a: "num_add (Fin (1)) (Fin 1) = Fin (2)"
    by (simp only: num_add.simps num_sub_def num_neg.simps rd_val_5)
  have "num_div (Fin (2)) (Fin 10) = rd ((2) / 10)" by simp
  moreover have "rd ((2) / 10) = rd (1 / 5)" by (rule arg_cong [where f = rd]) simp
  ultimately have d: "num_div (Fin (2)) (Fin 10) = Fin (3602879701896397 / 18014398509481984)"
    by (simp only: rd_val_6)
  show ?thesis by (simp only: step_in_def m a d)
qed

lemma rd_val_7: "rd (18014398509481985 / 9007199254740992) = Fin (2)"
proof -
  have "rd (18014398509481985 / 9007199254740992) =
      Fin (of_int (round_half_even ((18014398509481985 / 9007199254740992) / pow2 (1 - 52))) * pow2 (1 - 52))"
    by (rule rd_at) (simp_all add: pow2_def)
  also have "\<dots> = Fin (2)"
    by (simp add: pow2_def round_half_even_numeral round_half_even_int Let_def)
  finally show ?thesis .
qed

lemma rd_val_8: "rd (3) = Fin (3)"
proof -
  have "rd (3) =
      Fin (of_int (round_half_even ((3) / pow2 (1 - 52))) * pow2 (1 - 52))"
    by (rule rd_at) (simp_all add: pow2_def)
  also have "\<dots> = Fin (3)"
    by (simp add: pow2_def round_half_even_numeral round_half_even_int Let_def)
  finally show ?thesis .
qed

lemma rd_val_9: "rd (3 / 10) = Fin (5404319552844595 / 18014398509481984)"
proof -
  have "rd (3 / 10) =
      Fin (of_int (round_half_even ((3 / 10) / pow2 (- 2 - 52))) * pow2 (- 2 - 52))"
    by (rule rd_at) (simp_all add: pow2_def)
  also have "\<dots> = Fin (5404319552844595 / 18014398509481984)"
    by (simp add: pow2_def round_half_even_numeral round_half_even_int Let_def)
  finally show ?thesis .
qed

lemma step_in_at_3: "step_in (Fin (3602879701896397 / 18014398509481984)) = Fin (5404319552844595 / 18014398509481984)"
proof -
  have "rd ((3602879701896397 / 18014398509481984) * 10) = rd (18014398509481985 / 9007199254740992)" by (rule arg_cong [where f = rd]) simp
  then have m: "num_mul (Fin (3602879701896397 / 18014398509481984)) (Fin 10) = Fin (2)"
    by (simp only: num_mul.simps rd_val_7)
  have "rd ((2) + 1) = rd (3)" by (rule arg_cong [where f = rd]) simp
  then have a: "num_add (Fin (2)) (Fin 1) = Fin (3)"
    by (simp only: num_add.simps num_sub_def num_neg.simps rd_val_8)
  have "num_div (Fin (3)) (Fin 10) = rd ((3) / 10)" by simp
  moreover have "rd ((3) / 10) = rd (3 / 10)" by (rule arg_cong [where f = rd]) simp
  ultimately have d: "num_div (Fin (3)) (Fin 10) = Fin (5404319552844595 / 18014398509481984)"
    by (simp only: rd_val_9)
  show ?thesis by (simp only: step_in_def m a d)
qed

lemma rd_val_10: "rd (27021597764222975 / 9007199254740992) = Fin (3)"
proof -
  have "rd (27021597764222975 / 9007199254740992) =
      Fin (of_int (round_half_even ((27021597764222975 / 9007199254740992) / pow2 (1 - 52))) * pow2 (1 - 52))"
    by (rule rd_at) (simp_all add: pow2_def)
  also have "\<dots> = Fin (3)"
    by (simp add: pow2_def round_half_even_numeral round_half_even_int Let_def)
  finally show ?thesis .
qed

lemma rd_val_11: "rd (4) = Fin (4)"
proof -
  have "rd (4) =
      Fin (of_int (round_half_even ((4) / pow2 (2 - 52))) * pow2 (2 - 52))"
    by (rule rd_at) (simp_all add: pow2_def)
  also have "\<dots> = Fin (4)"
    by (simp add: pow2_def round_half_even_numeral round_half_even_int Let_def)
  finally show ?thesis .
qed

lemma rd_val_12: "rd (2 / 5) = Fin (3602879701896397 / 9007199254740992)"
proof -
  have "rd (2 / 5) =
      Fin (of_int (round_half_even ((2 / 5) / pow2 (- 2 - 52))) * pow2 (- 2 - 52))"
    by (rule rd_at) (simp_all add: pow2_def)
  also have "\<dots> = Fin (3602879701896397 / 9007199254740992)"
    by (simp add: pow2_def round_half_even_numeral round_half_even_int Let_def)
  finally show ?thesis .
qed

lemma step_in_at_4: "step_in (Fin (5404319552844595 / 18014398509481984)) = Fin (3602879701896397 / 9007199254740992)"
proof -
  have "rd ((5404319552844595 / 18014398509481984) * 10) = rd (27021597764222975 / 9007199254740992)" by (rule arg_cong [where f = rd]) simp
  then have m: "num_mul (Fin (5404319552844595 / 18014398509481984)) (Fin 10) = Fin (3)"
    by (simp only: num_mul.simps rd_val_10)
  have "rd ((3) + 1) = rd (4)" by (rule arg_cong [where f = rd]) simp
  then have a: "num_add (Fin (3)) (Fin 1) = Fin (4)"
    by (simp only: num_add.simps num_sub_def num_neg.simps rd_val_11)
  have "num_div (Fin (4)) (Fin 10) = rd ((4) / 10)" by simp
  moreover have "rd ((4) / 10) = rd (2 / 5)" by (rule arg_cong [where f = rd]) simp
  ultimately have d: "num_div (Fin (4)) (Fin 10) = Fin (3602879701896397 / 9007199254740992)"
    by (simp only: rd_val_12)
  show ?thesis by (simp only: step_in_def m a d)
qed

lemma rd_val_13: "rd (18014398509481985 / 4503599627370496) = Fin (4)"
proof -
  have "rd (18014398509481985 / 4503599627370496) =
      Fin (of_int (round_half_even ((18014398509481985 / 4503599627370496) / pow2 (2 - 52))) * pow2 (2 - 52))"
    by (rule rd_at) (simp_all add: pow2_def)
  also have "\<dots> = Fin (4)"
    by (simp add: pow2_def round_half_even_numeral round_half_even_int Let_def)
  finally show ?thesis .
qed

lemma rd_val_14: "rd (5) = Fin (5)"
proof -
  have "rd (5) =
      Fin (of_int (round_half_even ((5) / pow2 (2 - 52))) * pow2 (2 - 52))"
    by (rule rd_at) (simp_all add: pow2_def)
  also have "\<dots> = Fin (5)"
    by (simp add: pow2_def round_half_even_numeral round_half_even_int Let_def)
  finally show ?thesis .
qed

lemma rd_val_15: "rd (1 / 2) = Fin (1 / 2)"
proof -
  have "rd (1 / 2) =
      Fin (of_int (round_half_even ((1 / 2) / pow2 (- 1 - 52))) * pow2 (- 1 - 52))"
    by (rule rd_at) (simp_all add: pow2_def)
  also have "\<dots> = Fin (1 / 2)"
    by (simp add: pow2_def round_half_even_numeral round_half_even_int Let_def)
  finally show ?thesis .
qed

lemma step_in_at_5: "step_in (Fin (3602879701896397 / 9007199254740992)) = Fin (1 / 2)"
proof -
  have "rd ((3602879701896397 / 9007199254740992) * 10) = rd (18014398509481985 / 4503599627370496)" by (rule arg_cong [where f = rd]) simp
  then have m: "num_mul (Fin (3602879701896397 / 9007199254740992)) (Fin 10) = Fin (4)"
    by (simp only: num_mul.simps rd_val_13)
  have "rd ((4) + 1) = rd (5)" by (rule arg_cong [where f = rd]) simp
  then have a: "num_add (Fin (4)) (Fin 1) = Fin (5)"
    by (simp only: num_add.simps num_sub_def num_neg.simps rd_val_14)
  have "num_div (Fin (5)) (Fin 10) = rd ((5) / 10)" by simp
  moreover have "rd ((5) / 10) = rd (1 / 2)" by (rule arg_cong [where f = rd]) simp
  ultimately have d: "num_div (Fin (5)) (Fin 10) = Fin (1 / 2)"
    by (simp only: rd_val_15)
  show ?thesis by (simp only: step_in_def m a d)
qed

lemma rd_val_16: "rd (6) = Fin (6)"
proof -
  have "rd (6) =
      Fin (of_int (round_half_even ((6) / pow2 (2 - 52))) * pow2 (2 - 52))"
    by (rule rd_at) (simp_all add: pow2_def)
  also have "\<dots> = Fin (6)"
    by (simp add: pow2_def round_half_even_numeral round_half_even_int Let_def)
  finally show ?thesis .
qed

lemma rd_val_17: "rd (3 / 5) = Fin (5404319552844595 / 9007199254740992)"
proof -
  have "rd (3 / 5) =
      Fin (of_int (round_half_even ((3 / 5) / pow2 (- 1 - 52))) * pow2 (- 1 - 52))"
    by (rule rd_at) (simp_all add: pow2_def)
  also have "\<dots> = Fin (5404319552844595 / 9007199254740992)"
    by (simp add: pow2_def round_half_even_numeral round_half_even_int Let_def)
  finally show ?thesis .
qed

lemma step_in_at_6: "step_in (Fin (1 / 2)) = Fin (5404319552844595 / 9007199254740992)"
proof -
  have "rd ((1 / 2) * 10) = rd (5)" by (rule arg_cong [where f = rd]) simp
  then have m: "num_mul (Fin (1 / 2)) (Fin 10) = Fin (5)"
    by (simp only: num_mul.simps rd_val_14)
  have "rd ((5) + 1) = rd (6)" by (rule arg_cong [where f = rd]) simp
  then have a: "num_add (Fin (5)) (Fin 1) = Fin (6)"
    by (simp only: num_add.simps num_sub_def num_neg.simps rd_val_16)
  have "num_div (Fin (6)) (Fin 10) = rd ((6) / 10)" by simp
  moreover have "rd ((6) / 10) = rd (3 / 5)" by (rule arg_cong [where f = rd]) simp
  ultimately have d: "num_div (Fin (6)) (Fin 10) = Fin (5404319552844595 / 9007199254740992)"
    by (simp only: rd_val_17)
  show ?thesis by (simp only: step_in_def m a d)
qed

lemma rd_val_18: "rd (27021597764222975 / 4503599627370496) = Fin (6)"
proof -
  have "rd (27021597764222975 / 4503599627370496) =
      Fin (of_int (round_half_even ((27021597764222975 / 4503599627370496) / pow2 (2 - 52))) * pow2 (2 - 52))"
    by (rule rd_at) (simp_all add: pow2_def)
  also have "\<dots> = Fin (6)"
    by (simp add: pow2_def round_half_even_numeral round_half_even_int Let_def)
  finally show ?thesis .
qed

lemma rd_val_19: "rd (7) = Fin (7)"
proof -
  have "rd (7) =
      Fin (of_int (round_half_even ((7) / pow2 (2 - 52))) * pow2 (2 - 52))"
    by (rule rd_at) (simp_all add: pow2_def)
  also have "\<dots> = Fin (7)"
    by (simp add: pow2_def round_half_even_numeral round_half_even_int Let_def)
  finally show ?thesis .
qed

lemma rd_val_20: "rd (7 / 10) = Fin (3152519739159347 / 4503599627370496)"
proof -
  have "rd (7 / 10) =
      Fin (of_int (round_half_even ((7 / 10) / pow2 (- 1 - 52))) * pow2 (- 1 - 52))"
    by (rule rd_at) (simp_all add: pow2_def)
  also have "\<dots> = Fin (3152519739159347 / 4503599627370496)"
    by (simp add: pow2_def round_half_even_numeral round_half_even_int Let_def)
  finally show ?thesis .
qed

lemma step_in_at_7: "step_in (Fin (5404319552844595 / 9007199254740992)) = Fin (3152519739159347 / 4503599627370496)"
proof -
  have "rd ((5404319552844595 / 9007199254740992) * 10) = rd (27021597764222975 / 4503599627370496)" by (rule arg_cong [where f = rd]) simp
  then have m: "num_mul (Fin (5404319552844595 / 9007199254740992)) (Fin 10) = Fin (6)"
    by (simp only: num_mul.simps rd_val_18)
  have "rd ((6) + 1) = rd (7)" by (rule arg_cong [where f = rd]) simp
  then have a: "num_add (Fin (6)) (Fin 1) = Fin (7)"
    by (simp only: num_add.simps num_sub_def num_neg.simps rd_val_19)
  have "num_div (Fin (7)) (Fin 10) = rd ((7) / 10)" by simp
  moreover have "rd ((7) / 10) = rd (7 / 10)" by (rule arg_cong [where f = rd]) simp
  ultimately have d: "num_div (Fin (7)) (Fin 10) = Fin (3152519739159347 / 4503599627370496)"
    by (simp only: rd_val_20)
  show ?thesis by (simp only: step_in_def m a d)
qed

lemma rd_val_21: "rd (15762598695796735 / 2251799813685248) = Fin (7)"
proof -
  have "rd (15762598695796735 / 2251799813685248) =
      Fin (of_int (round_half_even ((15762598695796735 / 2251799813685248) / pow2 (2 - 52))) * pow2 (2 - 52))"
    by (rule rd_at) (simp_all add: pow2_def)
  also have "\<dots> = Fin (7)"
    by (simp add: pow2_def round_half_even_numeral round_half_even_int Let_def)
  finally show ?thesis .
qed

lemma rd_val_22: "rd (8) = Fin (8)"
proof -
  have "rd (8) =
      Fin (of_int (round_half_even ((8) / pow2 (3 - 52))) * pow2 (3 - 52))"
    by (rule rd_at) (simp_all add: pow2_def)
  also have "\<dots> = Fin (8)"
    by (simp add: pow2_def round_half_even_numeral round_half_even_int Let_def)
  finally show ?thesis .
qed

lemma rd_val_23: "rd (4 / 5) = Fin (3602879701896397 / 4503599627370496)"
proof -
  have "rd (4 / 5) =
      Fin (of_int (round_half_even ((4 / 5) / pow2 (- 1 - 52))) * pow2 (- 1 - 52))"
    by (rule rd_at) (simp_all add: pow2_def)
  also have "\<dots> = Fin (3602879701896397 / 4503599627370496)"
    by (simp add: pow2_def round_half_even_numeral round_half_even_int Let_def)
  finally show ?thesis .
qed

lemma step_in_at_8: "step_in (Fin (3152519739159347 / 4503599627370496)) = Fin (3602879701896397 / 4503599627370496)"
proof -
  have "rd ((3152519739159347 / 4503599627370496) * 10) = rd (15762598695796735 / 2251799813685248)" by (rule arg_cong [where f = rd]) simp
  then have m: "num_mul (Fin (3152519739159347 / 4503599627370496)) (Fin 10) = Fin (7)"
    by (simp only: num_mul.simps rd_val_21)
  have "rd ((7) + 1) = rd (8)" by (rule arg_cong [where f = rd]) simp
  then have a: "num_add (Fin (7)) (Fin 1) = Fin (8)"
    by (simp only: num_add.simps num_sub_def num_neg.simps rd_val_22)
  have "num_div (Fin (8)) (Fin 10) = rd ((8) / 10)" by simp
  moreover have "rd ((8) / 10) = rd (4 / 5)" by (rule arg_cong [where f = rd]) simp
  ultimately have d: "num_div (Fin (8)) (Fin 10) = Fin (3602879701896397 / 4503599627370496)"
    by (simp only: rd_val_23)
  show ?thesis by (simp only: step_in_def m a d)
qed

lemma rd_val_24: "rd (18014398509481985 / 2251799813685248) = Fin (8)"
proof -
  have "rd (18014398509481985 / 2251799813685248) =
      Fin (of_int (round_half_even ((18014398509481985 / 2251799813685248) / pow2 (3 - 52))) * pow2 (3 - 52))"
    by (rule rd_at) (simp_all add: pow2_def)
  also have "\<dots> = Fin (8)"
    by (simp add: pow2_def round_half_even_numeral round_half_even_int Let_def)
  finally show ?thesis .
qed

lemma rd_val_25: "rd (9) = Fin (9)"
proof -
  have "rd (9) =
      Fin (of_int (round_half_even ((9) / pow2 (3 - 52))) * pow2 (3 - 52))"
    by (rule rd_at) (simp_all add: pow2_def)
  also have "\<dots> = Fin (9)"
    by (simp add: pow2_def round_half_even_numeral round_half_even_int Let_def)
  finally show ?thesis .
qed

lemma rd_val_26: "rd (9 / 10) = Fin (8106479329266893 / 9007199254740992)"
proof -
  have "rd (9 / 10) =
      Fin (of_int (round_half_even ((9 / 10) / pow2 (- 1 - 52))) * pow2 (- 1 - 52))"
    by (rule rd_at) (simp_all add: pow2_def)
  also have "\<dots> = Fin (8106479329266893 / 9007199254740992)"
    by (simp add: pow2_def round_half_even_numeral round_half_even_int Let_def)
  finally show ?thesis .
qed

lemma step_in_at_9: "step_in (Fin (3602879701896397 / 4503599627370496)) = Fin (8106479329266893 / 9007199254740992)"
proof -
  have "rd ((3602879701896397 / 4503599627370496) * 10) = rd (18014398509481985 / 2251799813685248)" by (rule arg_cong [where f = rd]) simp
  then have m: "num_mul (Fin (3602879701896397 / 4503599627370496)) (Fin 10) = Fin (8)"
    by (simp only: num_mul.simps rd_val_24)
  have "rd ((8) + 1) = rd (9)" by (rule arg_cong [where f = rd]) simp
  then have a: "num_add (Fin (8)) (Fin 1) = Fin (9)"
    by (simp only: num_add.simps num_sub_def num_neg.simps rd_val_25)
  have "num_div (Fin (9)) (Fin 10) = rd ((9) / 10)" by simp
  moreover have "rd ((9) / 10) = rd (9 / 10)" by (rule arg_cong [where f = rd]) simp
  ultimately have d: "num_div (Fin (9)) (Fin 10) = Fin (8106479329266893 / 9007199254740992)"
    by (simp only: rd_val_26)
  show ?thesis by (simp only: step_in_def m a d)
qed

lemma rd_val_27: "rd (40532396646334465 / 4503599627370496) = Fin (9)"
proof -
  have "rd (40532396646334465 / 4503599627370496) =
      Fin (of_int (round_half_even ((40532396646334465 / 4503599627370496) / pow2 (3 - 52))) * pow2 (3 - 52))"
    by (rule rd_at) (simp_all add: pow2_def)
  also have "\<dots> = Fin (9)"
    by (simp add: pow2_def round_half_even_numeral round_half_even_int Let_def)
  finally show ?thesis .
qed

lemma rd_val_28: "rd (10) = Fin (10)"
proof -
  have "rd (10) =
      Fin (of_int (round_half_even ((10) / pow2 (3 - 52))) * pow2 (3 - 52))"
    by (rule rd_at) (simp_all add: pow2_def)
  also have "\<dots> = Fin (10)"
    by (simp add: pow2_def round_half_even_numeral round_half_even_int Let_def)
  finally show ?thesis .
qed

lemma step_in_at_10: "step_in (Fin (8106479329266893 / 9007199254740992)) = Fin (1)"
proof -
  have "rd ((8106479329266893 / 9007199254740992) * 10) = rd (40532396646334465 / 4503599627370496)" by (rule arg_cong [where f = rd]) simp
  then have m: "num_mul (Fin (8106479329266893 / 9007199254740992)) (Fin 10) = Fin (9)"
    by (simp only: num_mul.simps rd_val_27)
  have "rd ((9) + 1) = rd (10)" by (rule arg_cong [where f = rd]) simp
  then have a: "num_add (Fin (9)) (Fin 1) = Fin (10)"
    by (simp only: num_add.simps num_sub_def num_neg.simps rd_val_28)
  have "num_div (Fin (10)) (Fin 10) = rd ((10) / 10)" by simp
  moreover have "rd ((10) / 10) = rd (1)" by (rule arg_cong [where f = rd]) simp
  ultimately have d: "num_div (Fin (10)) (Fin 10) = Fin (1)"
    by (simp only: rd_val_2)
  show ?thesis by (simp only: step_in_def m a d)
qed

lemma rd_val_29: "rd (11) = Fin (11)"
proof -
  have "rd (11) =
      Fin (of_int (round_half_even ((11) / pow2 (3 - 52))) * pow2 (3 - 52))"
    by (rule rd_at) (simp_all add: pow2_def)
  also have "\<dots> = Fin (11)"
    by (simp add: pow2_def round_half_even_numeral round_half_even_int Let_def)
  finally show ?thesis .
qed

lemma rd_val_30: "rd (11 / 10) = Fin (2476979795053773 / 2251799813685248)"
proof -
  have "rd (11 / 10) =
      Fin (of_int (round_half_even ((11 / 10) / pow2 (0 - 52))) * pow2 (0 - 52))"
    by (rule rd_at) (simp_all add: pow2_def)
  also have "\<dots> = Fin (2476979795053773 / 2251799813685248)"
    by (simp add: pow2_def round_half_even_numeral round_half_even_int Let_def)
  finally show ?thesis .
qed

lemma step_in_at_11: "step_in (Fin (1)) = Fin (2476979795053773 / 2251799813685248)"
proof -
  have "rd ((1) * 10) = rd (10)" by (rule arg_cong [where f = rd]) simp
  then have m: "num_mul (Fin (1)) (Fin 10) = Fin (10)"
    by (simp only: num_mul.simps rd_val_28)
  have "rd ((10) + 1) = rd (11)" by (rule arg_cong [where f = rd]) simp
  then have a: "num_add (Fin (10)) (Fin 1) = Fin (11)"
    by (simp only: num_add.simps num_sub_def num_neg.simps rd_val_29)
  have "num_div (Fin (11)) (Fin 10) = rd ((11) / 10)" by simp
  moreover have "rd ((11) / 10) = rd (11 / 10)" by (rule arg_cong [where f = rd]) simp
  ultimately have d: "num_div (Fin (11)) (Fin 10) = Fin (2476979795053773 / 2251799813685248)"
    by (simp only: rd_val_30)
  show ?thesis by (simp only: step_in_def m a d)
qed

lemma step_out_at_1: "step_out (Fin (1)) = Fin (8106479329266893 / 9007199254740992)"
proof -
  have "rd ((1) * 10) = rd (10)" by (rule arg_cong [where f = rd]) simp
  then have m: "num_mul (Fin (1)) (Fin 10) = Fin (10)"
    by (simp only: num_mul.simps rd_val_28)
  have "rd ((10) + - 1) = rd (9)" by (rule arg_cong [where f = rd]) simp
  then have a: "num_sub (Fin (10)) (Fin 1) = Fin (9)"
    by (simp only: num_add.simps num_sub_def num_neg.simps rd_val_25)
  have "num_div (Fin (9)) (Fin 10) = rd ((9) / 10)" by simp
  moreover have "rd ((9) / 10) = rd (9 / 10)" by (rule arg_cong [where f = rd]) simp
  ultimately have d: "num_div (Fin (9)) (Fin 10) = Fin (8106479329266893 / 9007199254740992)"
    by (simp only: rd_val_26)
  show ?thesis by (simp only: step_out_def m a d)
qed

lemma step_out_at_2: "step_out (Fin (8106479329266893 / 9007199254740992)) = Fin (3602879701896397 / 4503599627370496)"
proof -
  have "rd ((8106479329266893 / 9007199254740992) * 10) = rd (40532396646334465 / 4503599627370496)" by (rule arg_cong [where f = rd]) simp
  then have m: "num_mul (Fin (8106479329266893 / 9007199254740992)) (Fin 10) = Fin (9)"
    by (simp only: num_mul.simps rd_val_27)
  have "rd ((9) + - 1) = rd (8)" by (rule arg_cong [where f = rd]) simp
  then have a: "num_sub (Fin (9)) (Fin 1) = Fin (8)"
    by (simp only: num_add.simps num_sub_def num_neg.simps rd_val_22)
  have "num_div (Fin (8)) (Fin 10) = rd ((8) / 10)" by simp
  moreover have "rd ((8) / 10) = rd (4 / 5)" by (rule arg_cong [where f = rd]) simp
  ultimately have d: "num_div (Fin (8)) (Fin 10) = Fin (3602879701896397 / 4503599627370496)"
    by (simp only: rd_val_23)
  show ?thesis by (simp only: step_out_def m a d)
qed

lemma step_out_at_3: "step_out (Fin (3602879701896397 / 4503599627370496)) = Fin (3152519739159347 / 4503599627370496)"
proof -
  have "rd ((3602879701896397 / 4503599627370496) * 10) = rd (18014398509481985 / 2251799813685248)" by (rule arg_cong [where f = rd]) simp
  then have m: "num_mul (Fin (3602879701896397 / 4503599627370496)) (Fin 10) = Fin (8)"
    by (simp only: num_mul.simps rd_val_24)
  have "rd ((8) + - 1) = rd (7)" by (rule arg_cong [where f = rd]) simp
  then have a: "num_sub (Fin (8)) (Fin 1) = Fin (7)"
    by (simp only: num_add.simps num_sub_def num_neg.simps rd_val_19)
  have "num_div (Fin (7)) (Fin 10) = rd ((7) / 10)" by simp
  moreover have "rd ((7) / 10) = rd (7 / 10)" by (rule arg_cong [where f = rd]) simp
  ultimately have d: "num_div (Fin (7)) (Fin 10) = Fin (3152519739159347 / 4503599627370496)"
    by (simp only: rd_val_20)
  show ?thesis by (simp only: step_out_def m a d)
qed

lemma step_out_at_4: "step_out (Fin (3152519739159347 / 4503599627370496)) = Fin (5404319552844595 / 9007199254740992)"
proof -
  have "rd ((3152519739159347 / 4503599627370496) * 10) = rd (15762598695796735 / 2251799813685248)" by (rule arg_cong [where f = rd]) simp
  then have m: "num_mul (Fin (3152519739159347 / 4503599627370496)) (Fin 10) = Fin (7)"
    by (simp only: num_mul.simps rd_val_21)
  have "rd ((7) + - 1) = rd (6)" by (rule arg_cong [where f = rd]) simp
  then have a: "num_sub (Fin (7)) (Fin 1) = Fin (6)"
    by (simp only: num_add.simps num_sub_def num_neg.simps rd_val_16)
  have "num_div (Fin (6)) (Fin 10) = rd ((6) / 10)" by simp
  moreover have "rd ((6) / 10) = rd (3 / 5)" by (rule arg_cong [where f = rd]) simp
  ultimately have d: "num_div (Fin (6)) (Fin 10) = Fin (5404319552844595 / 9007199254740992)"
    by (simp only: rd_val_17)
  show ?thesis by (simp only: step_out_def m a d)
qed

lemma step_out_at_5: "step_out (Fin (5404319552844595 / 9007199254740992)) = Fin (1 / 2)"
proof -
  have "rd ((5404319552844595 / 9007199254740992) * 10) = rd (27021597764222975 / 4503599627370496)" by (rule arg_cong [where f = rd]) simp
  then have m: "num_mul (Fin (5404319552844595 / 9007199254740992)) (Fin 10) = Fin (6)"
    by (simp only: num_mul.simps rd_val_18)
  have "rd ((6) + - 1) = rd (5)" by (rule arg_cong [where f = rd]) simp
  then have a: "num_sub (Fin (6)) (Fin 1) = Fin (5)"
    by (simp only: num_add.simps num_sub_def num_neg.simps rd_val_14)
  have "num_div (Fin (5)) (Fin 10) = rd ((5) / 10)" by simp
  moreover have "rd ((5) / 10) = rd (1 / 2)" by (rule arg_cong [where f = rd]) simp
  ultimately have d: "num_div (Fin (5)) (Fin 10) = Fin (1 / 2)"
    by (simp only: rd_val_15)
  show ?thesis by (simp only: step_out_def m a d)
qed

lemma step_out_at_6: "step_out (Fin (1 / 2)) = Fin (3602879701896397 / 9007199254740992)"
proof -
  have "rd ((1 / 2) * 10) = rd (5)" by (rule arg_cong [where f = rd]) simp
  then have m: "num_mul (Fin (1 / 2)) (Fin 10) = Fin (5)"
    by (simp only: num_mul.simps rd_val_14)
  have "rd ((5) + - 1) = rd (4)" by (rule arg_cong [where f = rd]) simp
  then have a: "num_sub (Fin (5)) (Fin 1) = Fin (4)"
    by (simp only: num_add.simps num_sub_def num_neg.simps rd_val_11)
  have "num_div (Fin (4)) (Fin 10) = rd ((4) / 10)" by simp
  moreover have "rd ((4) / 10) = rd (2 / 5)" by (rule arg_cong [where f = rd]) simp
  ultimately have d: "num_div (Fin (4)) (Fin 10) = Fin (3602879701896397 / 9007199254740992)"
    by (simp only: rd_val_12)
  show ?thesis by (simp only: step_out_def m a d)
qed

lemma step_out_at_7: "step_out (Fin (3602879701896397 / 9007199254740992)) = Fin (5404319552844595 / 18014398509481984)"
proof -
  have "rd ((3602879701896397 / 9007199254740992) * 10) = rd (18014398509481985 / 4503599627370496)" by (rule arg_cong [where f = rd]) simp
  then have m: "num_mul (Fin (3602879701896397 / 9007199254740992)) (Fin 10) = Fin (4)"
    by (simp only: num_mul.simps rd_val_13)
  have "rd ((4) + - 1) = rd (3)" by (rule arg_cong [where f = rd]) simp
  then have a: "num_sub (Fin (4)) (Fin 1) = Fin (3)"
    by (simp only: num_add.simps num_sub_def num_neg.simps rd_val_8)
  have "num_div (Fin (3)) (Fin 10) = rd ((3) / 10)" by simp
  moreover have "rd ((3) / 10) = rd (3 / 10)" by (rule arg_cong [where f = rd]) simp
  ultimately have d: "num_div (Fin (3)) (Fin 10) = Fin (5404319552844595 / 18014398509481984)"
    by (simp only: rd_val_9)
  show ?thesis by (simp only: step_out_def m a d)
qed

lemma step_out_at_8: "step_out (Fin (5404319552844595 / 18014398509481984)) = Fin (3602879701896397 / 18014398509481984)"
proof -
  have "rd ((5404319552844595 / 18014398509481984) * 10) = rd (27021597764222975 / 9007199254740992)" by (rule arg_cong [where f = rd]) simp
  then have m: "num_mul (Fin (5404319552844595 / 18014398509481984)) (Fin 10) = Fin (3)"
    by (simp only: num_mul.simps rd_val_10)
  have "rd ((3) + - 1) = rd (2)" by (rule arg_cong [where f = rd]) simp
  then have a: "num_sub (Fin (3)) (Fin 1) = Fin (2)"
    by (simp only: num_add.simps num_sub_def num_neg.simps rd_val_5)
  have "num_div (Fin (2)) (Fin 10) = rd ((2) / 10)" by simp
  moreover have "rd ((2) / 10) = rd (1 / 5)" by (rule arg_cong [where f = rd]) simp
  ultimately have d: "num_div (Fin (2)) (Fin 10) = Fin (3602879701896397 / 18014398509481984)"
    by (simp only: rd_val_6)
  show ?thesis by (simp only: step_out_def m a d)
qed

lemma step_out_at_9: "step_out (Fin (3602879701896397 / 18014398509481984)) = Fin (3602879701896397 / 36028797018963968)"
proof -
  have "rd ((3602879701896397 / 18014398509481984) * 10) = rd (18014398509481985 / 9007199254740992)" by (rule arg_cong [where f = rd]) simp
  then have m: "num_mul (Fin (3602879701896397 / 18014398509481984)) (Fin 10) = Fin (2)"
    by (simp only: num_mul.simps rd_val_7)
  have "rd ((2) + - 1) = rd (1)" by (rule arg_cong [where f = rd]) simp
  then have a: "num_sub (Fin (2)) (Fin 1) = Fin (1)"
    by (simp only: num_add.simps num_sub_def num_neg.simps rd_val_2)
  have "num_div (Fin (1)) (Fin 10) = rd ((1) / 10)" by simp
  moreover have "rd ((1) / 10) = rd (1 / 10)" by (rule arg_cong [where f = rd]) simp
  ultimately have d: "num_div (Fin (1)) (Fin 10) = Fin (3602879701896397 / 36028797018963968)"
    by (simp only: rd_val_3)
  show ?thesis by (simp only: step_out_def m a d)
qed

lemma step_out_at_10: "step_out (Fin (3602879701896397 / 36028797018963968)) = Fin (0)"
proof -
  have "rd ((3602879701896397 / 36028797018963968) * 10) = rd (18014398509481985 / 18014398509481984)" by (rule arg_cong [where f = rd]) simp
  then have m: "num_mul (Fin (3602879701896397 / 36028797018963968)) (Fin 10) = Fin (1)"
    by (simp only: num_mul.simps rd_val_4)
  have "rd ((1) + - 1) = rd (0)" by (rule arg_cong [where f = rd]) simp
  then have a: "num_sub (Fin (1)) (Fin 1) = Fin (0)"
    by (simp only: num_add.simps num_sub_def num_neg.simps rd_val_1)
  have "num_div (Fin (0)) (Fin 10) = rd ((0) / 10)" by simp
  moreover have "rd ((0) / 10) = rd (0)" by (rule arg_cong [where f = rd]) simp
  ultimately have d: "num_div (Fin (0)) (Fin 10) = Fin (0)"
    by (simp only: rd_val_1)
  show ?thesis by (simp only: step_out_def m a d)
qed

lemma rd_val_31: "rd (- 1) = Fin (- 1)"
  using rd_minus [of "1"] by (simp add: rd_val_2)

lemma rd_val_32: "rd (- (1 / 10)) = Fin (- (3602879701896397 / 36028797018963968))"
  using rd_minus [of "1 / 10"] by (simp add: rd_val_3)

lemma step_out_at_11: "step_out (Fin (0)) = Fin (- (3602879701896397 / 36028797018963968))"
proof -
  have "rd ((0) * 10) = rd (0)" by (rule arg_cong [where f = rd]) simp
  then have m: "num_mul (Fin (0)) (Fin 10) = Fin (0)"
    by (simp only: num_mul.simps rd_val_1)
  have "rd ((0) + - 1) = rd (- 1)" by (rule arg_cong [where f = rd]) simp
  then have a: "num_sub (Fin (0)) (Fin 1) = Fin (- 1)"
    by (simp only: num_add.simps num_sub_def num_neg.simps rd_val_31)
  have "num_div (Fin (- 1)) (Fin 10) = rd ((- 1) / 10)" by simp
  moreover have "rd ((- 1) / 10) = rd (- (1 / 10))" by (rule arg_cong [where f = rd]) simp
  ultimately have d: "num_div (Fin (- 1)) (Fin 10) = Fin (- (3602879701896397 / 36028797018963968))"
    by (simp only: rd_val_32)
  show ?thesis by (simp only: step_out_def m a d)
qed

lemma rd_val_34: "rd (11529215046068469760) = Fin (11529215046068469760)"
proof -
  have "rd (11529215046068469760) =
      Fin (of_int (round_half_even ((11529215046068469760) / pow2 (63 - 52))) * pow2 (63 - 52))"
    by (rule rd_at) (simp_all add: pow2_def)
  also have "\<dots> = Fin (11529215046068469760)"
    by (simp add: pow2_def round_half_even_numeral round_half_even_int Let_def)
  finally show ?thesis .
qed

lemma rd_val_33: "rd (- 11529215046068469760) = Fin (- 11529215046068469760)"
  using rd_minus [of "11529215046068469760"] by (simp add: rd_val_34)

lemma rd_val_36: "rd (11529215046068469759) = Fin (11529215046068469760)"
proof -
  have "rd (11529215046068469759) =
      Fin (of_int (round_half_even ((11529215046068469759) / pow2 (63 - 52))) * pow2 (63 - 52))"
    by (rule rd_at) (simp_all add: pow2_def)
  also have "\<dots> = Fin (11529215046068469760)"
    by (simp add: pow2_def round_half_even_numeral round_half_even_int Let_def)
  finally show ?thesis .
qed

lemma rd_val_35: "rd (- 11529215046068469759) = Fin (- 11529215046068469760)"
  using rd_minus [of "11529215046068469759"] by (simp add: rd_val_36)

lemma rd_val_38: "rd (1152921504606846976) = Fin (1152921504606846976)"
proof -
  have "rd (1152921504606846976) =
      Fin (of_int (round_half_even ((1152921504606846976) / pow2 (60 - 52))) * pow2 (60 - 52))"
    by (rule rd_at) (simp_all add: pow2_def)
  also have "\<dots> = Fin (1152921504606846976)"
    by (simp add: pow2_def round_half_even_numeral round_half_even_int Let_def)
  finally show ?thesis .
qed

lemma rd_val_37: "rd (- 1152921504606846976) = Fin (- 1152921504606846976)"
  using rd_minus [of "1152921504606846976"] by (simp add: rd_val_38)

text \<open>
  Far outside the range of an opacity a step is lost in rounding: at \<open>- 2 ^ 60\<close> the
  product by 10 has a unit in the last place of 2048, the added 1 rounds away, and the
  step returns its argument.
\<close>

lemma step_in_stagnates: "step_in (Fin (- 1152921504606846976)) = Fin (- 1152921504606846976)"
proof -
  have "rd ((- 1152921504606846976) * 10) = rd (- 11529215046068469760)" by (rule arg_cong [where f = rd]) simp
  then have m: "num_mul (Fin (- 1152921504606846976)) (Fin 10) = Fin (- 11529215046068469760)"
    by (simp only: num_mul.simps rd_val_33)
  have "rd ((- 11529215046068469760) + 1) = rd (- 11529215046068469759)" by (rule arg_cong [where f = rd]) simp
  then have a: "num_add (Fin (- 11529215046068469760)) (Fin 1) = Fin (- 11529215046068469760)"
    by (simp only: num_add.simps num_sub_def num_neg.simps rd_val_35)
  have "num_div (Fin (- 11529215046068469760)) (Fin 10) = rd ((- 11529215046068469760) / 10)" by simp
  moreover have "rd ((- 11529215046068469760) / 10) = rd (- 1152921504606846976)" by (rule arg_cong [where f = rd]) simp
  ultimately have d: "num_div (Fin (- 11529215046068469760)) (Fin 10) = Fin (- 1152921504606846976)"
    by (simp only: rd_val_37)
  show ?thesis by (simp only: step_in_def m a d)
qed

text \<open>
  The values the closure holds after each callback of the two example fades, and the
  ticks at which the target is not yet crossed.
\<close>

lemma fade_in_value_1: "track_in (Fin 0) 1 = Fin (3602879701896397 / 36028797018963968)"
proof -
  have e: "(1::nat) = Suc 0" by simp
  show ?thesis by (subst e) (simp only: track_in_Suc track_in_0 step_in_at_1)
qed

lemma fade_in_value_2: "track_in (Fin 0) 2 = Fin (3602879701896397 / 18014398509481984)"
proof -
  have e: "(2::nat) = Suc 1" by simp
  show ?thesis by (subst e) (simp only: track_in_Suc fade_in_value_1 step_in_at_2)
qed

lemma fade_in_value_3: "track_in (Fin 0) 3 = Fin (5404319552844595 / 18014398509481984)"
proof -
  have e: "(3::nat) = Suc 2" by simp
  show ?thesis by (subst e) (simp only: track_in_Suc fade_in_value_2 step_in_at_3)
qed

lemma fade_in_value_4: "track_in (Fin 0) 4 = Fin (3602879701896397 / 9007199254740992)"
proof -
  have e: "(4::nat) = Suc 3" by simp
  show ?thesis by (subst e) (simp only: track_in_Suc fade_in_value_3 step_in_at_4)
qed

lemma fade_in_value_5: "track_in (Fin 0) 5 = Fin (1 / 2)"
proof -
  have e: "(5::nat) = Suc 4" by simp
  show ?thesis by (subst e) (simp only: track_in_Suc fade_in_value_4 step_in_at_5)
qed

lemma fade_in_value_6: "track_in (Fin 0) 6 = Fin (5404319552844595 / 9007199254740992)"
proof -
  have e: "(6::nat) = Suc 5" by simp
  show ?thesis by (subst e) (simp only: track_in_Suc fade_in_value_5 step_in_at_6)
qed

lemma fade_in_value_7: "track_in (Fin 0) 7 = Fin (3152519739159347 / 4503599627370496)"
proof -
  have e: "(7::nat) = Suc 6" by simp
  show ?thesis by (subst e) (simp only: track_in_Suc fade_in_value_6 step_in_at_7)
qed

lemma fade_in_value_8: "track_in (Fin 0) 8 = Fin (3602879701896397 / 4503599627370496)"
proof -
  have e: "(8::nat) = Suc 7" by simp
  show ?thesis by (subst e) (simp only: track_in_Suc fade_in_value_7 step_in_at_8)
qed

lemma fade_in_value_9: "track_in (Fin 0) 9 = Fin (8106479329266893 / 9007199254740992)"
proof -
  have e: "(9::nat) = Suc 8" by simp
  show ?thesis by (subst e) (simp only: track_in_Suc fade_in_value_8 step_in_at_9)
qed

lemma fade_in_value_10: "track_in (Fin 0) 10 = Fin (1)"
proof -
  have e: "(10::nat) = Suc 9" by simp
  show ?thesis by (subst e) (simp only: track_in_Suc fade_in_value_9 step_in_at_10)
qed

lemma fade_in_value_11: "track_in (Fin 0) 11 = Fin (2476979795053773 / 2251799813685248)"
proof -
  have e: "(11::nat) = Suc 10" by simp
  show ?thesis by (subst e) (simp only: track_in_Suc fade_in_value_10 step_in_at_11)
qed

lemma fade_out_value_1: "track_out (Fin 1) 1 = Fin (8106479329266893 / 9007199254740992)"
proof -
  have e: "(1::nat) = Suc 0" by simp
  show ?thesis by (subst e) (simp only: track_out_Suc track_out_0 step_out_at_1)
qed

lemma fade_out_value_2: "track_out (Fin 1) 2 = Fin (3602879701896397 / 4503599627370496)"
proof -
  have e: "(2::nat) = Suc 1" by simp
  show ?thesis by (subst e) (simp only: track_out_Suc fade_out_value_1 step_out_at_2)
qed

lemma fade_out_value_3: "track_out (Fin 1) 3 = Fin (3152519739159347 / 4503599627370496)"
proof -
  have e: "(3::nat) = Suc 2" by simp
  show ?thesis by (subst e) (simp only: track_out_Suc fade_out_value_2 step_out_at_3)
qed

lemma fade_out_value_4: "track_out (Fin 1) 4 = Fin (5404319552844595 / 9007199254740992)"
proof -
  have e: "(4::nat) = Suc 3" by simp
  show ?thesis by (subst e) (simp only: track_out_Suc fade_out_value_3 step_out_at_4)
qed

lemma fade_out_value_5: "track_out (Fin 1) 5 = Fin (1 / 2)"
proof -
  have e: "(5::nat) = Suc 4" by simp
  show ?thesis by (subst e) (simp only: track_out_Suc fade_out_value_4 step_out_at_5)
qed

lemma fade_out_value_6: "track_out (Fin 1) 6 = Fin (3602879701896397 / 9007199254740992)"
proof -
  have e: "(6::nat) = Suc 5" by simp
  show ?thesis by (subst e) (simp only: track_out_Suc fade_out_value_5 step_out_at_6)
qed

lemma fade_out_value_7: "track_out (Fin 1) 7 = Fin (5404319552844595 / 18014398509481984)"
proof -
  have e: "(7::nat) = Suc 6" by simp
  show ?thesis by (subst e) (simp only: track_out_Suc fade_out_value_6 step_out_at_7)
qed

lemma fade_out_value_8: "track_out (Fin 1) 8 = Fin (3602879701896397 / 18014398509481984)"
proof -
  have e: "(8::nat) = Suc 7" by simp
  show ?thesis by (subst e) (simp only: track_out_Suc fade_out_value_7 step_out_at_8)
qed

lemma fade_out_value_9: "track_out (Fin 1) 9 = Fin (3602879701896397 / 36028797018963968)"
proof -
  have e: "(9::nat) = Suc 8" by simp
  show ?thesis by (subst e) (simp only: track_out_Suc fade_out_value_8 step_out_at_9)
qed

lemma fade_out_value_10: "track_out (Fin 1) 10 = Fin (0)"
proof -
  have e: "(10::nat) = Suc 9" by simp
  show ?thesis by (subst e) (simp only: track_out_Suc fade_out_value_9 step_out_at_10)
qed

lemma fade_out_value_11: "track_out (Fin 1) 11 = Fin (- (3602879701896397 / 36028797018963968))"
proof -
  have e: "(11::nat) = Suc 10" by simp
  show ?thesis by (subst e) (simp only: track_out_Suc fade_out_value_10 step_out_at_11)
qed

lemma fade_in_values_below:
  assumes "0 < j" and "j \<le> 10"
  shows "\<not> num_gt (track_in (Fin 0) j) (Fin 1)"
proof -
  from assms have "j = 1 \<or> j = 2 \<or> j = 3 \<or> j = 4 \<or> j = 5 \<or> j = 6 \<or> j = 7 \<or> j = 8 \<or> j = 9 \<or> j = 10"
    by arith
  then show ?thesis
    by (elim disjE) (simp_all add: num_gt_def fade_in_value_1 [unfolded One_nat_def] fade_in_value_2 fade_in_value_3 fade_in_value_4 fade_in_value_5 fade_in_value_6 fade_in_value_7 fade_in_value_8 fade_in_value_9 fade_in_value_10)
qed

lemma fade_out_values_above:
  assumes "0 < j" and "j \<le> 10"
  shows "\<not> num_lt (track_out (Fin 1) j) (Fin 0)"
proof -
  from assms have "j = 1 \<or> j = 2 \<or> j = 3 \<or> j = 4 \<or> j = 5 \<or> j = 6 \<or> j = 7 \<or> j = 8 \<or> j = 9 \<or> j = 10"
    by arith
  then show ?thesis
    by (elim disjE) (simp_all add: fade_out_value_1 [unfolded One_nat_def] fade_out_value_2 fade_out_value_3 fade_out_value_4 fade_out_value_5 fade_out_value_6 fade_out_value_7 fade_out_value_8 fade_out_value_9 fade_out_value_10)
qed

section \<open>Fades: the two examples run to the end\<close>

text \<open>
  The run of \<^verbatim>\<open>fadeIn(el, 1, 50)\<close> on a hidden node with no inline opacity: the closure
  starts at 0, ten callbacks write 0.1, 0.2, ... up to exactly 1 and leave the promise
  pending, and the eleventh computes 1.1 (the double nearest to it), resolves, stops the
  timer and writes nothing, so that the style keeps the value 1.
\<close>

lemma fadeIn_example_run:
  assumes run: "fadeIn h (Single 1) (Fin 1) (Fin 50) example_state = (p, s0)"
  shows "p = Inr (TimerPromise 0)"
    and "k \<le> 10 \<Longrightarrow> \<not> is_resolved (ticks 0 k s0) (TimerPromise 0)"
    and "0 < k \<Longrightarrow> k \<le> 10 \<Longrightarrow> style_opacity (doc (ticks 0 k s0) 1) = track_in (Fin 0) k"
    and "0 < k \<Longrightarrow> k \<le> 10 \<Longrightarrow> \<not> hidden (ticks 0 k s0) 1"
    and "is_resolved (ticks 0 11 s0) (TimerPromise 0)"
    and "style_opacity (doc (ticks 0 11 s0) 1) = Fin 1"
    and "opacity (timers (ticks 0 11 s0) ! 0) = Fin (2476979795053773 / 2251799813685248)"
    and "\<not> hidden (ticks 0 11 s0) 1"
    and "fire 0 (ticks 0 11 s0) = None"
    and "k \<le> 10 \<Longrightarrow> active (timers (ticks 0 k s0) ! 0)"
    and "\<not> active (timers (ticks 0 11 s0) ! 0)"
proof -
  let ?tm = "\<lparr>fade = FadeIn, element = 1, opacity = Fin 0, toOpacity = Fin 1,
            delay = Fin 50, active = True, signal = Pending\<rparr>"
  have o: "opacity_of example_state 1 = Fin 0"
    by (simp add: opacity_of_def or_zero_def example_state_def)
  have c: "clamp01 (Fin 1) = Fin 1" by (simp add: clamp01_def num_gt_def)
  have tl: "timers example_state = []" by (simp add: example_state_def)
  have "(p, s0) = (Inr (TimerPromise (length (timers example_state))),
      example_state\<lparr>timers := timers example_state @ [?tm]\<rparr>)"
    by (simp only: run [symmetric] fadeIn_single o c)
  then have s0: "s0 = example_state\<lparr>timers := [?tm]\<rparr>" and p: "p = Inr (TimerPromise 0)"
    by (simp_all add: tl)
  show "p = Inr (TimerPromise 0)" by (rule p)
  have i: "0 < length (timers s0)" and tm: "timers s0 ! 0 = ?tm" by (simp_all add: s0)
  have nc: "\<forall>j. 0 < j \<and> j \<le> k \<longrightarrow> \<not> num_gt (track_in (opacity ?tm) j) (toOpacity ?tm)"
    if "k \<le> 10" for k
    using that fade_in_values_below by simp
  have pre: "timers (ticks 0 k s0) = (timers s0)[0 := ?tm\<lparr>opacity := track_in (opacity ?tm) k\<rparr>] \<and>
     (0 < k \<longrightarrow> style_opacity (doc (ticks 0 k s0) (element ?tm)) = track_in (opacity ?tm) k \<and>
        (num_gt (toOpacity ?tm) (Fin 0) \<longrightarrow> \<not> hidden (ticks 0 k s0) (element ?tm)))"
    if "k \<le> 10" for k
    by (rule fadeIn_run_prefix [OF i tm _ _ nc [OF that]]) simp_all
  show "\<not> is_resolved (ticks 0 k s0) (TimerPromise 0)" if "k \<le> 10"
    using pre [OF that] tm i by simp
  show "style_opacity (doc (ticks 0 k s0) 1) = track_in (Fin 0) k" if "0 < k" "k \<le> 10"
    using pre [OF that(2)] that(1) by simp
  show "\<not> hidden (ticks 0 k s0) 1" if "0 < k" "k \<le> 10"
    using pre [OF that(2)] that(1) by (simp add: num_gt_def)
  have cross: "num_gt (track_in (opacity ?tm) (Suc 10)) (toOpacity ?tm)"
    by (simp add: fade_in_value_11 num_gt_def)
  have n10: "\<forall>j. 0 < j \<and> j \<le> 10 \<longrightarrow> \<not> num_gt (track_in (opacity ?tm) j) (toOpacity ?tm)"
    by (rule nc) simp
  have k: "fade ?tm = FadeIn" and a: "active ?tm" by simp_all
  note settle = fadeIn_run_settle [OF i tm k a n10 cross]
  have e: "(11::nat) = Suc 10" by simp
  have t: "timers (ticks 0 11 s0) =
      (timers s0)[0 := ?tm\<lparr>opacity := track_in (opacity ?tm) (Suc 10), signal := Resolved, active := False\<rparr>]"
    by (subst e) (rule settle(1))
  have ts: "timers s0 = [?tm]" by (simp add: s0)
  have t': "timers (ticks 0 11 s0) =
      [?tm\<lparr>opacity := track_in (opacity ?tm) (Suc 10), signal := Resolved, active := False\<rparr>]"
    unfolding t ts by simp
  show "is_resolved (ticks 0 11 s0) (TimerPromise 0)" by (simp add: t')
  show "opacity (timers (ticks 0 11 s0) ! 0) = Fin (2476979795053773 / 2251799813685248)"
    by (simp add: t' fade_in_value_11)
  have "style_opacity (doc (ticks 0 11 s0) 1) = style_opacity (doc (ticks 0 10 s0) 1)"
    by (subst e) (rule settle(2))
  also have "\<dots> = track_in (Fin 0) 10" using pre [of 10] by simp
  finally show "style_opacity (doc (ticks 0 11 s0) 1) = Fin 1" by (simp add: fade_in_value_10)
  have "\<not> hidden (ticks 0 (Suc 10) s0) (element ?tm)"
    by (rule settle(3)) (simp add: num_gt_def)
  then show "\<not> hidden (ticks 0 11 s0) 1" by simp
  show "fire 0 (ticks 0 11 s0) = None" by (subst e) (rule settle(4))
  show "active (timers (ticks 0 k s0) ! 0)" if "k \<le> 10"
    using pre [OF that] tm i by simp
  show "\<not> active (timers (ticks 0 11 s0) ! 0)" by (simp add: t')
qed

text \<open>
  The run of \<^verbatim>\<open>fadeOut(el, 0, 50)\<close> on a visible node of inline opacity 1: ten callbacks
  write 0.9, 0.8, ... down to exactly 0 and leave the promise pending and the node
  visible, and the eleventh computes -0.1, resolves, stops the timer and hides the node;
  the style keeps the value 0.
\<close>

lemma fadeOut_example_run:
  assumes run: "fadeOut h (Single 2) (Fin 0) (Fin 50) (set_opacity 2 (Fin 1) example_state) = (p, s0)"
  shows "p = Inr (TimerPromise 0)"
    and "k \<le> 10 \<Longrightarrow> \<not> is_resolved (ticks 0 k s0) (TimerPromise 0)"
    and "0 < k \<Longrightarrow> k \<le> 10 \<Longrightarrow> style_opacity (doc (ticks 0 k s0) 2) = track_out (Fin 1) k"
    and "k \<le> 10 \<Longrightarrow> \<not> hidden (ticks 0 k s0) 2"
    and "is_resolved (ticks 0 11 s0) (TimerPromise 0)"
    and "style_opacity (doc (ticks 0 11 s0) 2) = Fin 0"
    and "opacity (timers (ticks 0 11 s0) ! 0) = Fin (- (3602879701896397 / 36028797018963968))"
    and "hidden (ticks 0 11 s0) 2"
    and "fire 0 (ticks 0 11 s0) = None"
    and "k \<le> 10 \<Longrightarrow> active (timers (ticks 0 k s0) ! 0)"
    and "\<not> active (timers (ticks 0 11 s0) ! 0)"
proof -
  let ?tm = "\<lparr>fade = FadeOut, element = 2, opacity = Fin 1, toOpacity = Fin 0,
            delay = Fin 50, active = True, signal = Pending\<rparr>"
  let ?s = "set_opacity 2 (Fin 1) example_state"
  have o: "opacity_of ?s 2 = Fin 1"
    by (simp add: opacity_of_def or_zero_def set_opacity_def)
  have c: "clamp01 (Fin 0) = Fin 0" by (simp add: clamp01_def num_gt_def)
  have tl: "timers ?s = []" by (simp add: example_state_def set_opacity_def)
  have "(p, s0) = (Inr (TimerPromise (length (timers ?s))), ?s\<lparr>timers := timers ?s @ [?tm]\<rparr>)"
    by (simp only: run [symmetric] fadeOut_single o c)
  then have s0: "s0 = ?s\<lparr>timers := [?tm]\<rparr>" and p: "p = Inr (TimerPromise 0)"
    by (simp_all add: tl)
  show "p = Inr (TimerPromise 0)" by (rule p)
  have i: "0 < length (timers s0)" and tm: "timers s0 ! 0 = ?tm" by (simp_all add: s0)
  have v0: "\<not> hidden s0 2" by (simp add: s0 hidden_def set_opacity_def example_state_def)
  have nc: "\<forall>j. 0 < j \<and> j \<le> k \<longrightarrow> \<not> num_lt (track_out (opacity ?tm) j) (toOpacity ?tm)"
    if "k \<le> 10" for k
    using that fade_out_values_above by simp
  have pre: "timers (ticks 0 k s0) = (timers s0)[0 := ?tm\<lparr>opacity := track_out (opacity ?tm) k\<rparr>] \<and>
     (0 < k \<longrightarrow> style_opacity (doc (ticks 0 k s0) (element ?tm)) = track_out (opacity ?tm) k) \<and>
     classList (doc (ticks 0 k s0) 2) = classList (doc s0 2)"
    if "k \<le> 10" for k
    by (rule fadeOut_run_prefix [OF i tm _ _ nc [OF that]]) simp_all
  show "\<not> is_resolved (ticks 0 k s0) (TimerPromise 0)" if "k \<le> 10"
    using pre [OF that] tm i by simp
  show "style_opacity (doc (ticks 0 k s0) 2) = track_out (Fin 1) k" if "0 < k" "k \<le> 10"
    using pre [OF that(2)] that(1) by simp
  show "\<not> hidden (ticks 0 k s0) 2" if "k \<le> 10"
    using pre [OF that] v0 by (simp add: hidden_def)
  have cross: "num_lt (track_out (opacity ?tm) (Suc 10)) (toOpacity ?tm)"
    by (simp add: fade_out_value_11)
  have n10: "\<forall>j. 0 < j \<and> j \<le> 10 \<longrightarrow> \<not> num_lt (track_out (opacity ?tm) j) (toOpacity ?tm)"
    by (rule nc) simp
  have k: "fade ?tm = FadeOut" and a: "active ?tm" by simp_all
  note settle = fadeOut_run_settle [OF i tm k a n10 cross]
  have e: "(11::nat) = Suc 10" by simp
  have t: "timers (ticks 0 11 s0) =
      (timers s0)[0 := ?tm\<lparr>opacity := track_out (opacity ?tm) (Suc 10), signal := Resolved, active := False\<rparr>]"
    by (subst e) (rule settle(1))
  have ts: "timers s0 = [?tm]" by (simp add: s0)
  have t': "timers (ticks 0 11 s0) =
      [?tm\<lparr>opacity := track_out (opacity ?tm) (Suc 10), signal := Resolved, active := False\<rparr>]"
    unfolding t ts by simp
  show "is_resolved (ticks 0 11 s0) (TimerPromise 0)" by (simp add: t')
  show "opacity (timers (ticks 0 11 s0) ! 0) = Fin (- (3602879701896397 / 36028797018963968))"
    by (simp add: t' fade_out_value_11)
  have "style_opacity (doc (ticks 0 11 s0) 2) = style_opacity (doc (ticks 0 10 s0) 2)"
    by (subst e) (rule settle(2))
  also have "\<dots> = track_out (Fin 1) 10" using pre [of 10] by simp
  finally show "style_opacity (doc (ticks 0 11 s0) 2) = Fin 0" by (simp add: fade_out_value_10)
  have "hidden (ticks 0 (Suc 10) s0) (element ?tm)" by (rule settle(3))
  then show "hidden (ticks 0 11 s0) 2" by simp
  show "fire 0 (ticks 0 11 s0) = None" by (subst e) (rule settle(4))
  show "active (timers (ticks 0 k s0) ! 0)" if "k \<le> 10"
    using pre [OF that] tm i by simp
  show "\<not> active (timers (ticks 0 11 s0) ! 0)" by (simp add: t')
qed

section \<open>Fades that never settle\<close>


lemma track_in_stagnates: "track_in (Fin (- 1152921504606846976)) n = Fin (- 1152921504606846976)"
  by (induction n) (simp_all only: track_in_0 track_in_Suc step_in_stagnates)


lemma clamp01_NaN: "clamp01 NaN = NaN"
  by (simp add: clamp01_def num_gt_def)

lemma num_lt_NaN: "\<not> num_lt v NaN" "\<not> num_lt NaN v"
  by (cases v; simp)+

lemma fadeIn_pending:
  assumes below: "\<And>j. \<not> num_gt (track_in (opacity_of s el) j) (clamp01 t)"
    and i: "i = length (timers s)"
  shows "\<not> is_resolved (ticks i n (snd (fadeIn h (Single el) t dl s))) (TimerPromise i)"
    and "active (timers (ticks i n (snd (fadeIn h (Single el) t dl s))) ! i)"
    and "opacity (timers (ticks i n (snd (fadeIn h (Single el) t dl s))) ! i) =
      track_in (opacity_of s el) n"
proof -
  let ?tm = "\<lparr>fade = FadeIn, element = el, opacity = opacity_of s el, toOpacity = clamp01 t,
            delay = dl, active = True, signal = Pending\<rparr>"
  let ?s0 = "s\<lparr>timers := timers s @ [?tm]\<rparr>"
  have s0: "snd (fadeIn h (Single el) t dl s) = ?s0" by (simp add: fadeIn_single)
  have l: "i < length (timers ?s0)" and tm: "timers ?s0 ! i = ?tm" by (simp_all add: i)
  have nc: "\<forall>j. 0 < j \<and> j \<le> n \<longrightarrow> \<not> num_gt (track_in (opacity ?tm) j) (toOpacity ?tm)"
    using below by simp
  have "timers (ticks i n ?s0) = (timers ?s0)[i := ?tm\<lparr>opacity := track_in (opacity ?tm) n\<rparr>]"
    using fadeIn_run_prefix [OF l tm _ _ nc] by simp
  then have t: "timers (ticks i n ?s0) ! i = ?tm\<lparr>opacity := track_in (opacity ?tm) n\<rparr>"
    and len: "i < length (timers (ticks i n ?s0))"
    using l by simp_all
  show "\<not> is_resolved (ticks i n (snd (fadeIn h (Single el) t dl s))) (TimerPromise i)"
    unfolding s0 using t len by simp
  show "active (timers (ticks i n (snd (fadeIn h (Single el) t dl s))) ! i)"
    unfolding s0 using t by simp
  show "opacity (timers (ticks i n (snd (fadeIn h (Single el) t dl s))) ! i) =
      track_in (opacity_of s el) n"
    unfolding s0 using t by simp
qed


section \<open>Fades on one node\<close>

text \<open>
  The theorems of this section follow one fade: the timer that the call creates, and the
  states after its callback has run \<open>k\<close> times (\<open>ticks i k\<close>). They hold for a start
  opacity of absolute value at most \<open>2 ^ 40\<close> and a target that is a number; the bound
  keeps every rounding error of a step well below the step itself.
\<close>

lemma resolved_iff:
  "i < length (timers s) \<Longrightarrow> is_resolved s (TimerPromise i) = (signal (timers s ! i) = Resolved)"
  by simp







lemma fadeIn_steps:
  assumes start: "opacity_of s el = Fin x" and lo: "- (2 ^ 40) \<le> x" and hi: "x \<le> 2 ^ 40"
    and target: "t \<noteq> NaN" and i: "i = length (timers s)"
  shows "\<exists>s0 n. fadeIn h (Single el) t dl s = (Inr (TimerPromise i), s0) \<and> 0 < n \<and>
     opacity (timers s0 ! i) = Fin x \<and>
     (\<forall>k<n. active (timers (ticks i k s0) ! i) \<and> fire i (ticks i k s0) \<noteq> None \<and>
        (\<exists>y y'. opacity (timers (ticks i k s0) ! i) = Fin y \<and>
           opacity (timers (ticks i (Suc k) s0) ! i) = Fin y' \<and>
           num_div (num_add (num_mul (Fin y) (Fin 10)) (Fin 1)) (Fin 10) = Fin y' \<and>
           y < y' \<and> y + 1 / 20 \<le> y' \<and> y' \<le> y + 3 / 20) \<and>
        (Suc k < n \<longrightarrow> \<not> num_gt (opacity (timers (ticks i (Suc k) s0) ! i)) (clamp01 t))) \<and>
     num_gt (opacity (timers (ticks i n s0) ! i)) (clamp01 t) \<and>
     (\<forall>m\<ge>n. \<not> active (timers (ticks i m s0) ! i) \<and> fire i (ticks i m s0) = None \<and>
        ticks i m s0 = ticks i n s0)"
proof -
  from clamp01_range [OF target] obtain c where c: "clamp01 t = Fin c" by blast
  from fadeIn_run [OF start lo hi c i, of h dl] obtain s0 n where
    call: "fadeIn h (Single el) t dl s = (Inr (TimerPromise i), s0)"
    and n: "0 < n" and len: "\<forall>k\<le>n. i < length (timers (ticks i k s0))"
    and run: "\<forall>k<n. active (timers (ticks i k s0) ! i) \<and> signal (timers (ticks i k s0) ! i) = Pending \<and>
        opacity (timers (ticks i k s0) ! i) = track_in (Fin x) k"
    and fin: "\<not> active (timers (ticks i n s0) ! i)"
      "opacity (timers (ticks i n s0) ! i) = track_in (Fin x) n"
    and tr: "\<forall>k<n. \<exists>y y'. track_in (Fin x) k = Fin y \<and> track_in (Fin x) (Suc k) = Fin y' \<and>
          y + 1 / 20 \<le> y' \<and> y' \<le> y + 3 / 20 \<and> (Suc k < n \<longrightarrow> y' \<le> c)"
    and cr: "\<exists>z. track_in (Fin x) n = Fin z \<and> c < z"
    and stop: "fire i (ticks i n s0) = None"
    by - (erule exE, erule exE, elim conjE, rule that; assumption)
  have op: "opacity (timers (ticks i k s0) ! i) = track_in (Fin x) k" if "k \<le> n" for k
    using that run fin(2) by (cases "k = n") simp_all
  have first: "opacity (timers s0 ! i) = Fin x"
    using op [of 0] by (simp add: track_in_0)
  have step: "active (timers (ticks i k s0) ! i) \<and> fire i (ticks i k s0) \<noteq> None \<and>
        (\<exists>y y'. opacity (timers (ticks i k s0) ! i) = Fin y \<and>
           opacity (timers (ticks i (Suc k) s0) ! i) = Fin y' \<and>
           num_div (num_add (num_mul (Fin y) (Fin 10)) (Fin 1)) (Fin 10) = Fin y' \<and>
           y < y' \<and> y + 1 / 20 \<le> y' \<and> y' \<le> y + 3 / 20) \<and>
        (Suc k < n \<longrightarrow> \<not> num_gt (opacity (timers (ticks i (Suc k) s0) ! i)) (clamp01 t))"
    if kn: "k < n" for k
  proof -
    from tr kn obtain y y' where y: "track_in (Fin x) k = Fin y" "track_in (Fin x) (Suc k) = Fin y'"
      "y + 1 / 20 \<le> y'" "y' \<le> y + 3 / 20" "Suc k < n \<longrightarrow> y' \<le> c" by blast
    have o1: "opacity (timers (ticks i k s0) ! i) = Fin y" using op [of k] kn y(1) by simp
    have o2: "opacity (timers (ticks i (Suc k) s0) ! i) = Fin y'" using op [of "Suc k"] kn y(2) by simp
    have f: "num_div (num_add (num_mul (Fin y) (Fin 10)) (Fin 1)) (Fin 10) = Fin y'"
      using y(1,2) by (simp add: track_in_Suc step_in_def)
    have m: "y < y'" using y(3,4) by simp
    have a: "active (timers (ticks i k s0) ! i)" using run kn by blast
    have l: "i < length (timers (ticks i k s0))" using len kn by simp
    have g: "fire i (ticks i k s0) \<noteq> None" using a l by (simp add: fire_def)
    have e: "\<exists>y y'. opacity (timers (ticks i k s0) ! i) = Fin y \<and>
           opacity (timers (ticks i (Suc k) s0) ! i) = Fin y' \<and>
           num_div (num_add (num_mul (Fin y) (Fin 10)) (Fin 1)) (Fin 10) = Fin y' \<and>
           y < y' \<and> y + 1 / 20 \<le> y' \<and> y' \<le> y + 3 / 20"
      by (rule exI [of _ y], rule exI [of _ y']) (intro conjI o1 o2 f m y(3) y(4))
    have b: "Suc k < n \<longrightarrow> \<not> num_gt (opacity (timers (ticks i (Suc k) s0) ! i)) (clamp01 t)"
      using y(5) by (auto simp: o2 c num_gt_def)
    show ?thesis by (intro conjI a g e b)
  qed
  have over: "num_gt (opacity (timers (ticks i n s0) ! i)) (clamp01 t)"
    using cr fin(2) by (auto simp: c num_gt_def)
  have after: "\<forall>m\<ge>n. \<not> active (timers (ticks i m s0) ! i) \<and> fire i (ticks i m s0) = None \<and>
        ticks i m s0 = ticks i n s0"
  proof (intro allI impI)
    fix m assume "n \<le> m"
    then have "ticks i m s0 = ticks i n s0" by (rule ticks_frozen [OF stop])
    then show "\<not> active (timers (ticks i m s0) ! i) \<and> fire i (ticks i m s0) = None \<and>
        ticks i m s0 = ticks i n s0"
      using fin(1) stop by (simp only: simp_thms)
  qed
  have all: "\<forall>k<n. active (timers (ticks i k s0) ! i) \<and> fire i (ticks i k s0) \<noteq> None \<and>
        (\<exists>y y'. opacity (timers (ticks i k s0) ! i) = Fin y \<and>
           opacity (timers (ticks i (Suc k) s0) ! i) = Fin y' \<and>
           num_div (num_add (num_mul (Fin y) (Fin 10)) (Fin 1)) (Fin 10) = Fin y' \<and>
           y < y' \<and> y + 1 / 20 \<le> y' \<and> y' \<le> y + 3 / 20) \<and>
        (Suc k < n \<longrightarrow> \<not> num_gt (opacity (timers (ticks i (Suc k) s0) ! i)) (clamp01 t))"
    using step by blast
  show ?thesis
    by (rule exI [of _ s0], rule exI [of _ n]) (intro conjI call n first all over after)
qed

lemma fadeOut_steps:
  assumes start: "opacity_of s el = Fin x" and lo: "- (2 ^ 40) \<le> x" and hi: "x \<le> 2 ^ 40"
    and target: "t \<noteq> NaN" and i: "i = length (timers s)"
  shows "\<exists>s0 n. fadeOut h (Single el) t dl s = (Inr (TimerPromise i), s0) \<and> 0 < n \<and>
     opacity (timers s0 ! i) = Fin x \<and>
     (\<forall>k<n. active (timers (ticks i k s0) ! i) \<and> fire i (ticks i k s0) \<noteq> None \<and>
        (\<exists>y y'. opacity (timers (ticks i k s0) ! i) = Fin y \<and>
           opacity (timers (ticks i (Suc k) s0) ! i) = Fin y' \<and>
           num_div (num_sub (num_mul (Fin y) (Fin 10)) (Fin 1)) (Fin 10) = Fin y' \<and>
           y' < y \<and> y - 3 / 20 \<le> y' \<and> y' \<le> y - 1 / 20) \<and>
        (Suc k < n \<longrightarrow> \<not> num_lt (opacity (timers (ticks i (Suc k) s0) ! i)) (clamp01 t))) \<and>
     num_lt (opacity (timers (ticks i n s0) ! i)) (clamp01 t) \<and>
     (\<forall>m\<ge>n. \<not> active (timers (ticks i m s0) ! i) \<and> fire i (ticks i m s0) = None \<and>
        ticks i m s0 = ticks i n s0)"
proof -
  from clamp01_range [OF target] obtain c where c: "clamp01 t = Fin c" by blast
  from fadeOut_run [OF start lo hi c i, of h dl] obtain s0 n where
    call: "fadeOut h (Single el) t dl s = (Inr (TimerPromise i), s0)"
    and n: "0 < n" and len: "\<forall>k\<le>n. i < length (timers (ticks i k s0))"
    and run: "\<forall>k<n. active (timers (ticks i k s0) ! i) \<and> signal (timers (ticks i k s0) ! i) = Pending \<and>
        opacity (timers (ticks i k s0) ! i) = track_out (Fin x) k"
    and fin: "\<not> active (timers (ticks i n s0) ! i)"
      "opacity (timers (ticks i n s0) ! i) = track_out (Fin x) n"
    and tr: "\<forall>k<n. \<exists>y y'. track_out (Fin x) k = Fin y \<and> track_out (Fin x) (Suc k) = Fin y' \<and>
          y - 3 / 20 \<le> y' \<and> y' \<le> y - 1 / 20 \<and> (Suc k < n \<longrightarrow> c \<le> y')"
    and cr: "\<exists>z. track_out (Fin x) n = Fin z \<and> z < c"
    and stop: "fire i (ticks i n s0) = None"
    by - (erule exE, erule exE, elim conjE, rule that; assumption)
  have op: "opacity (timers (ticks i k s0) ! i) = track_out (Fin x) k" if "k \<le> n" for k
    using that run fin(2) by (cases "k = n") simp_all
  have first: "opacity (timers s0 ! i) = Fin x"
    using op [of 0] by (simp add: track_out_0)
  have step: "active (timers (ticks i k s0) ! i) \<and> fire i (ticks i k s0) \<noteq> None \<and>
        (\<exists>y y'. opacity (timers (ticks i k s0) ! i) = Fin y \<and>
           opacity (timers (ticks i (Suc k) s0) ! i) = Fin y' \<and>
           num_div (num_sub (num_mul (Fin y) (Fin 10)) (Fin 1)) (Fin 10) = Fin y' \<and>
           y' < y \<and> y - 3 / 20 \<le> y' \<and> y' \<le> y - 1 / 20) \<and>
        (Suc k < n \<longrightarrow> \<not> num_lt (opacity (timers (ticks i (Suc k) s0) ! i)) (clamp01 t))"
    if kn: "k < n" for k
  proof -
    from tr kn obtain y y' where y: "track_out (Fin x) k = Fin y" "track_out (Fin x) (Suc k) = Fin y'"
      "y - 3 / 20 \<le> y'" "y' \<le> y - 1 / 20" "Suc k < n \<longrightarrow> c \<le> y'" by blast
    have o1: "opacity (timers (ticks i k s0) ! i) = Fin y" using op [of k] kn y(1) by simp
    have o2: "opacity (timers (ticks i (Suc k) s0) ! i) = Fin y'" using op [of "Suc k"] kn y(2) by simp
    have f: "num_div (num_sub (num_mul (Fin y) (Fin 10)) (Fin 1)) (Fin 10) = Fin y'"
      using y(1,2) by (simp add: track_out_Suc step_out_def)
    have m: "y' < y" using y(3,4) by simp
    have a: "active (timers (ticks i k s0) ! i)" using run kn by blast
    have l: "i < length (timers (ticks i k s0))" using len kn by simp
    have g: "fire i (ticks i k s0) \<noteq> None" using a l by (simp add: fire_def)
    have e: "\<exists>y y'. opacity (timers (ticks i k s0) ! i) = Fin y \<and>
           opacity (timers (ticks i (Suc k) s0) ! i) = Fin y' \<and>
           num_div (num_sub (num_mul (Fin y) (Fin 10)) (Fin 1)) (Fin 10) = Fin y' \<and>
           y' < y \<and> y - 3 / 20 \<le> y' \<and> y' \<le> y - 1 / 20"
      by (rule exI [of _ y], rule exI [of _ y']) (intro conjI o1 o2 f m y(3) y(4))
    have b: "Suc k < n \<longrightarrow> \<not> num_lt (opacity (timers (ticks i (Suc k) s0) ! i)) (clamp01 t)"
      using y(5) by (auto simp: o2 c num_gt_def)
    show ?thesis by (intro conjI a g e b)
  qed
  have over: "num_lt (opacity (timers (ticks i n s0) ! i)) (clamp01 t)"
    using cr fin(2) by (auto simp: c num_gt_def)
  have after: "\<forall>m\<ge>n. \<not> active (timers (ticks i m s0) ! i) \<and> fire i (ticks i m s0) = None \<and>
        ticks i m s0 = ticks i n s0"
  proof (intro allI impI)
    fix m assume "n \<le> m"
    then have "ticks i m s0 = ticks i n s0" by (rule ticks_frozen [OF stop])
    then show "\<not> active (timers (ticks i m s0) ! i) \<and> fire i (ticks i m s0) = None \<and>
        ticks i m s0 = ticks i n s0"
      using fin(1) stop by (simp only: simp_thms)
  qed
  have all: "\<forall>k<n. active (timers (ticks i k s0) ! i) \<and> fire i (ticks i k s0) \<noteq> None \<and>
        (\<exists>y y'. opacity (timers (ticks i k s0) ! i) = Fin y \<and>
           opacity (timers (ticks i (Suc k) s0) ! i) = Fin y' \<and>
           num_div (num_sub (num_mul (Fin y) (Fin 10)) (Fin 1)) (Fin 10) = Fin y' \<and>
           y' < y \<and> y - 3 / 20 \<le> y' \<and> y' \<le> y - 1 / 20) \<and>
        (Suc k < n \<longrightarrow> \<not> num_lt (opacity (timers (ticks i (Suc k) s0) ! i)) (clamp01 t))"
    using step by blast
  show ?thesis
    by (rule exI [of _ s0], rule exI [of _ n]) (intro conjI call n first all over after)
qed

text \<open>
  Claim C4, under the conditions it needs: the target is a number (not NaN) and the
  opacity of the node at the start has an absolute value of at most \<open>2 ^ 40\<close>. The
  closure starts from the opacity read at the call. Every tick before the crossing finds
  the timer active and replaces the tracked opacity \<open>y\<close> by the value \<open>y'\<close> of the step
  formula, \<^verbatim>\<open>(opacity*10+1)/10\<close> for \<open>fadeIn\<close> and \<^verbatim>\<open>(opacity*10-1)/10\<close> for \<open>fadeOut\<close>, each
  operation rounded; \<open>y'\<close> is strictly above \<open>y\<close> for \<open>fadeIn\<close> and strictly below for
  \<open>fadeOut\<close>, by between \<open>1/20\<close> and \<open>3/20\<close>. The target bound is crossed at one tick \<open>n\<close>
  and at no earlier tick; the timer is active before \<open>n\<close> and is destroyed at \<open>n\<close>:
  inactive from then on, with no further run of the callback, so it is destroyed once.
\<close>

theorem fade_steps_monotone:
  assumes "opacity_of s el = Fin x" and "- (2 ^ 40) \<le> x" and "x \<le> 2 ^ 40"
    and "t \<noteq> NaN" and "i = length (timers s)"
    and "opacity_of s' el' = Fin x'" and "- (2 ^ 40) \<le> x'" and "x' \<le> 2 ^ 40"
    and "t' \<noteq> NaN" and "i' = length (timers s')"
  shows "(\<exists>s0 n. fadeIn h (Single el) t dl s = (Inr (TimerPromise i), s0) \<and> 0 < n \<and>
     opacity (timers s0 ! i) = Fin x \<and>
     (\<forall>k<n. active (timers (ticks i k s0) ! i) \<and> fire i (ticks i k s0) \<noteq> None \<and>
        (\<exists>y y'. opacity (timers (ticks i k s0) ! i) = Fin y \<and>
           opacity (timers (ticks i (Suc k) s0) ! i) = Fin y' \<and>
           num_div (num_add (num_mul (Fin y) (Fin 10)) (Fin 1)) (Fin 10) = Fin y' \<and>
           y < y' \<and> y + 1 / 20 \<le> y' \<and> y' \<le> y + 3 / 20) \<and>
        (Suc k < n \<longrightarrow> \<not> num_gt (opacity (timers (ticks i (Suc k) s0) ! i)) (clamp01 t))) \<and>
     num_gt (opacity (timers (ticks i n s0) ! i)) (clamp01 t) \<and>
     (\<forall>m\<ge>n. \<not> active (timers (ticks i m s0) ! i) \<and> fire i (ticks i m s0) = None \<and>
        ticks i m s0 = ticks i n s0)) \<and>
   (\<exists>s0 n. fadeOut h' (Single el') t' dl' s' = (Inr (TimerPromise i'), s0) \<and> 0 < n \<and>
     opacity (timers s0 ! i') = Fin x' \<and>
     (\<forall>k<n. active (timers (ticks i' k s0) ! i') \<and> fire i' (ticks i' k s0) \<noteq> None \<and>
        (\<exists>y y'. opacity (timers (ticks i' k s0) ! i') = Fin y \<and>
           opacity (timers (ticks i' (Suc k) s0) ! i') = Fin y' \<and>
           num_div (num_sub (num_mul (Fin y) (Fin 10)) (Fin 1)) (Fin 10) = Fin y' \<and>
           y' < y \<and> y - 3 / 20 \<le> y' \<and> y' \<le> y - 1 / 20) \<and>
        (Suc k < n \<longrightarrow> \<not> num_lt (opacity (timers (ticks i' (Suc k) s0) ! i')) (clamp01 t'))) \<and>
     num_lt (opacity (timers (ticks i' n s0) ! i')) (clamp01 t') \<and>
     (\<forall>m\<ge>n. \<not> active (timers (ticks i' m s0) ! i') \<and> fire i' (ticks i' m s0) = None \<and>
        ticks i' m s0 = ticks i' n s0))"
  using fadeIn_steps [OF assms(1-5), of h dl] fadeOut_steps [OF assms(6-10), of h' dl']
  by (rule conjI)

theorem fade_steps_monotone_witness:
  "opacity_of example_state 1 = Fin 0 \<and> - (2 ^ 40) \<le> (0::rat) \<and> (0::rat) \<le> 2 ^ 40 \<and>
   Fin 1 \<noteq> NaN \<and> 0 = length (timers example_state) \<and>
   opacity_of (set_opacity 2 (Fin 1) example_state) 2 = Fin 1 \<and> - (2 ^ 40) \<le> (1::rat) \<and> (1::rat) \<le> 2 ^ 40 \<and>
   Fin 0 \<noteq> NaN \<and> 0 = length (timers (set_opacity 2 (Fin 1) example_state)) \<and>
   (\<exists>s0. fadeIn (example_host :: unit state host) (Single 1) (Fin 1) (Fin 50) example_state = (Inr (TimerPromise 0), s0) \<and> 0 < (11::nat) \<and>
     opacity (timers s0 ! 0) = Fin 0 \<and>
     (\<forall>k<(11::nat). active (timers (ticks 0 k s0) ! 0) \<and> fire 0 (ticks 0 k s0) \<noteq> None \<and>
        (\<exists>y y'. opacity (timers (ticks 0 k s0) ! 0) = Fin y \<and>
           opacity (timers (ticks 0 (Suc k) s0) ! 0) = Fin y' \<and>
           num_div (num_add (num_mul (Fin y) (Fin 10)) (Fin 1)) (Fin 10) = Fin y' \<and>
           y < y' \<and> y + 1 / 20 \<le> y' \<and> y' \<le> y + 3 / 20) \<and>
        (Suc k < (11::nat) \<longrightarrow> \<not> num_gt (opacity (timers (ticks 0 (Suc k) s0) ! 0)) (clamp01 (Fin 1)))) \<and>
     num_gt (opacity (timers (ticks 0 (11::nat) s0) ! 0)) (clamp01 (Fin 1)) \<and>
     (\<forall>m\<ge>(11::nat). \<not> active (timers (ticks 0 m s0) ! 0) \<and> fire 0 (ticks 0 m s0) = None \<and>
        ticks 0 m s0 = ticks 0 (11::nat) s0)) \<and>
   (\<exists>s0. fadeOut (example_host :: unit state host) (Single 2) (Fin 0) (Fin 50) (set_opacity 2 (Fin 1) example_state) = (Inr (TimerPromise 0), s0) \<and> 0 < (11::nat) \<and>
     opacity (timers s0 ! 0) = Fin 1 \<and>
     (\<forall>k<(11::nat). active (timers (ticks 0 k s0) ! 0) \<and> fire 0 (ticks 0 k s0) \<noteq> None \<and>
        (\<exists>y y'. opacity (timers (ticks 0 k s0) ! 0) = Fin y \<and>
           opacity (timers (ticks 0 (Suc k) s0) ! 0) = Fin y' \<and>
           num_div (num_sub (num_mul (Fin y) (Fin 10)) (Fin 1)) (Fin 10) = Fin y' \<and>
           y' < y \<and> y - 3 / 20 \<le> y' \<and> y' \<le> y - 1 / 20) \<and>
        (Suc k < (11::nat) \<longrightarrow> \<not> num_lt (opacity (timers (ticks 0 (Suc k) s0) ! 0)) (clamp01 (Fin 0)))) \<and>
     num_lt (opacity (timers (ticks 0 (11::nat) s0) ! 0)) (clamp01 (Fin 0)) \<and>
     (\<forall>m\<ge>(11::nat). \<not> active (timers (ticks 0 m s0) ! 0) \<and> fire 0 (ticks 0 m s0) = None \<and>
        ticks 0 m s0 = ticks 0 (11::nat) s0))"
proof -
  have a: "opacity_of example_state 1 = Fin 0"
    by (simp add: opacity_of_def or_zero_def example_state_def)
  have b: "- (2 ^ 40) \<le> (0::rat)" and c: "(0::rat) \<le> 2 ^ 40" by simp_all
  have d: "Fin 1 \<noteq> NaN" by simp
  have f: "0 = length (timers example_state)" by (simp add: example_state_def)
  have a': "opacity_of (set_opacity 2 (Fin 1) example_state) 2 = Fin 1"
    by (simp add: opacity_of_def or_zero_def set_opacity_def)
  have b': "- (2 ^ 40) \<le> (1::rat)" and c': "(1::rat) \<le> 2 ^ 40" by simp_all
  have d': "Fin 0 \<noteq> NaN" by simp
  have f': "0 = length (timers (set_opacity 2 (Fin 1) example_state))" by (simp add: example_state_def set_opacity_def)
  note inst = fade_steps_monotone [OF a b c d f a' b' c' d' f',
      where h = "example_host :: unit state host" and dl = "Fin 50"
        and h' = "example_host :: unit state host" and dl' = "Fin 50"]
  have x: "\<exists>s0. fadeIn (example_host :: unit state host) (Single 1) (Fin 1) (Fin 50) example_state = (Inr (TimerPromise 0), s0) \<and> 0 < (11::nat) \<and>
     opacity (timers s0 ! 0) = Fin 0 \<and>
     (\<forall>k<(11::nat). active (timers (ticks 0 k s0) ! 0) \<and> fire 0 (ticks 0 k s0) \<noteq> None \<and>
        (\<exists>y y'. opacity (timers (ticks 0 k s0) ! 0) = Fin y \<and>
           opacity (timers (ticks 0 (Suc k) s0) ! 0) = Fin y' \<and>
           num_div (num_add (num_mul (Fin y) (Fin 10)) (Fin 1)) (Fin 10) = Fin y' \<and>
           y < y' \<and> y + 1 / 20 \<le> y' \<and> y' \<le> y + 3 / 20) \<and>
        (Suc k < (11::nat) \<longrightarrow> \<not> num_gt (opacity (timers (ticks 0 (Suc k) s0) ! 0)) (clamp01 (Fin 1)))) \<and>
     num_gt (opacity (timers (ticks 0 (11::nat) s0) ! 0)) (clamp01 (Fin 1)) \<and>
     (\<forall>m\<ge>(11::nat). \<not> active (timers (ticks 0 m s0) ! 0) \<and> fire 0 (ticks 0 m s0) = None \<and>
        ticks 0 m s0 = ticks 0 (11::nat) s0)"
  proof -
    from inst [THEN conjunct1] obtain s0 n where
      call: "fadeIn (example_host :: unit state host) (Single 1) (Fin 1) (Fin 50) example_state = (Inr (TimerPromise 0), s0)"
      and first: "opacity (timers s0 ! 0) = Fin 0"
      and steps: "\<forall>k<n. active (timers (ticks 0 k s0) ! 0) \<and> fire 0 (ticks 0 k s0) \<noteq> None \<and>
        (\<exists>y y'. opacity (timers (ticks 0 k s0) ! 0) = Fin y \<and>
           opacity (timers (ticks 0 (Suc k) s0) ! 0) = Fin y' \<and>
           num_div (num_add (num_mul (Fin y) (Fin 10)) (Fin 1)) (Fin 10) = Fin y' \<and>
           y < y' \<and> y + 1 / 20 \<le> y' \<and> y' \<le> y + 3 / 20) \<and>
        (Suc k < n \<longrightarrow> \<not> num_gt (opacity (timers (ticks 0 (Suc k) s0) ! 0)) (clamp01 (Fin 1)))"
      and over: "num_gt (opacity (timers (ticks 0 n s0) ! 0)) (clamp01 (Fin 1))"
      and after: "\<forall>m\<ge>n. \<not> active (timers (ticks 0 m s0) ! 0) \<and> fire 0 (ticks 0 m s0) = None \<and>
        ticks 0 m s0 = ticks 0 n s0"
      by - (erule exE, erule exE, elim conjE, rule that; assumption)
    have "n \<le> n" by simp
    with after have off: "\<not> active (timers (ticks 0 n s0) ! 0)" by blast
    have n1: "\<not> n \<le> 10"
    proof
      assume "n \<le> 10"
      then have "active (timers (ticks 0 n s0) ! 0)" by (rule fadeIn_example_run(10) [OF call])
      with off show False by simp
    qed
    have n2: "\<not> 11 < n"
    proof
      assume "11 < n"
      with steps have "active (timers (ticks 0 11 s0) ! 0)" by blast
      with fadeIn_example_run(11) [OF call] show False by simp
    qed
    from n1 n2 have n: "n = 11" by simp
    have p: "0 < (11::nat)" by simp
    show ?thesis
      by (rule exI [of _ s0])
        (intro conjI call p first steps [unfolded n] over [unfolded n] after [unfolded n])
  qed
  have y: "\<exists>s0. fadeOut (example_host :: unit state host) (Single 2) (Fin 0) (Fin 50) (set_opacity 2 (Fin 1) example_state) = (Inr (TimerPromise 0), s0) \<and> 0 < (11::nat) \<and>
     opacity (timers s0 ! 0) = Fin 1 \<and>
     (\<forall>k<(11::nat). active (timers (ticks 0 k s0) ! 0) \<and> fire 0 (ticks 0 k s0) \<noteq> None \<and>
        (\<exists>y y'. opacity (timers (ticks 0 k s0) ! 0) = Fin y \<and>
           opacity (timers (ticks 0 (Suc k) s0) ! 0) = Fin y' \<and>
           num_div (num_sub (num_mul (Fin y) (Fin 10)) (Fin 1)) (Fin 10) = Fin y' \<and>
           y' < y \<and> y - 3 / 20 \<le> y' \<and> y' \<le> y - 1 / 20) \<and>
        (Suc k < (11::nat) \<longrightarrow> \<not> num_lt (opacity (timers (ticks 0 (Suc k) s0) ! 0)) (clamp01 (Fin 0)))) \<and>
     num_lt (opacity (timers (ticks 0 (11::nat) s0) ! 0)) (clamp01 (Fin 0)) \<and>
     (\<forall>m\<ge>(11::nat). \<not> active (timers (ticks 0 m s0) ! 0) \<and> fire 0 (ticks 0 m s0) = None \<and>
        ticks 0 m s0 = ticks 0 (11::nat) s0)"
  proof -
    from inst [THEN conjunct2] obtain s0 n where
      call: "fadeOut (example_host :: unit state host) (Single 2) (Fin 0) (Fin 50) (set_opacity 2 (Fin 1) example_state) = (Inr (TimerPromise 0), s0)"
      and first: "opacity (timers s0 ! 0) = Fin 1"
      and steps: "\<forall>k<n. active (timers (ticks 0 k s0) ! 0) \<and> fire 0 (ticks 0 k s0) \<noteq> None \<and>
        (\<exists>y y'. opacity (timers (ticks 0 k s0) ! 0) = Fin y \<and>
           opacity (timers (ticks 0 (Suc k) s0) ! 0) = Fin y' \<and>
           num_div (num_sub (num_mul (Fin y) (Fin 10)) (Fin 1)) (Fin 10) = Fin y' \<and>
           y' < y \<and> y - 3 / 20 \<le> y' \<and> y' \<le> y - 1 / 20) \<and>
        (Suc k < n \<longrightarrow> \<not> num_lt (opacity (timers (ticks 0 (Suc k) s0) ! 0)) (clamp01 (Fin 0)))"
      and over: "num_lt (opacity (timers (ticks 0 n s0) ! 0)) (clamp01 (Fin 0))"
      and after: "\<forall>m\<ge>n. \<not> active (timers (ticks 0 m s0) ! 0) \<and> fire 0 (ticks 0 m s0) = None \<and>
        ticks 0 m s0 = ticks 0 n s0"
      by - (erule exE, erule exE, elim conjE, rule that; assumption)
    have "n \<le> n" by simp
    with after have off: "\<not> active (timers (ticks 0 n s0) ! 0)" by blast
    have n1: "\<not> n \<le> 10"
    proof
      assume "n \<le> 10"
      then have "active (timers (ticks 0 n s0) ! 0)" by (rule fadeOut_example_run(10) [OF call])
      with off show False by simp
    qed
    have n2: "\<not> 11 < n"
    proof
      assume "11 < n"
      with steps have "active (timers (ticks 0 11 s0) ! 0)" by blast
      with fadeOut_example_run(11) [OF call] show False by simp
    qed
    from n1 n2 have n: "n = 11" by simp
    have p: "0 < (11::nat)" by simp
    show ?thesis
      by (rule exI [of _ s0])
        (intro conjI call p first steps [unfolded n] over [unfolded n] after [unfolded n])
  qed
  show ?thesis by (intro conjI a b c d f a' b' c' d' f' x y)
qed

text \<open>
  Two runs outside these conditions. \<^verbatim>\<open>fadeIn(el, 1, 50)\<close> on node 2 with inline opacity
  \<open>- 2 ^ 60\<close>: the timer is active at the first tick, and the opacity that the closure
  holds after it is the one it held before, so the step does not increase it.
  \<^verbatim>\<open>fadeIn(el, NaN, 50)\<close> on node 1: the bound is never crossed and the timer is active
  after every tick, so it is never destroyed.
\<close>

theorem fade_step_lost_or_timer_kept:
  "opacity_of (set_opacity 2 (Fin (- (2 ^ 60))) example_state) 2 = Fin (- (2 ^ 60)) \<and>
   active (timers (ticks 0 0 (snd (fadeIn (example_host :: unit state host) (Single 2) (Fin 1) (Fin 50)
       (set_opacity 2 (Fin (- (2 ^ 60))) example_state)))) ! 0) \<and>
   opacity (timers (ticks 0 0 (snd (fadeIn (example_host :: unit state host) (Single 2) (Fin 1) (Fin 50)
       (set_opacity 2 (Fin (- (2 ^ 60))) example_state)))) ! 0) = Fin (- (2 ^ 60)) \<and>
   opacity (timers (ticks 0 1 (snd (fadeIn (example_host :: unit state host) (Single 2) (Fin 1) (Fin 50)
       (set_opacity 2 (Fin (- (2 ^ 60))) example_state)))) ! 0) = Fin (- (2 ^ 60)) \<and>
   num_div (num_add (num_mul (Fin (- (2 ^ 60))) (Fin 10)) (Fin 1)) (Fin 10) = Fin (- (2 ^ 60)) \<and>
   clamp01 NaN = NaN \<and>
   (\<forall>n. active (timers (ticks 0 n (snd (fadeIn (example_host :: unit state host) (Single 1) NaN (Fin 50)
       example_state))) ! 0))"
proof -
  let ?h = "(example_host :: unit state host)"
  let ?u = "(set_opacity 2 (Fin (- (2 ^ 60))) example_state)"
  have o: "opacity_of ?u 2 = Fin (- 1152921504606846976)"
    by (simp add: opacity_of_def or_zero_def set_opacity_def)
  have o': "opacity_of ?u 2 = Fin (- (2 ^ 60))" using o by simp
  have e: "Fin (- (2 ^ 60)) = Fin (- 1152921504606846976)" by simp
  have c: "clamp01 (Fin 1) = Fin 1" by (simp add: clamp01_def num_gt_def)
  have t: "0 = length (timers ?u)" by (simp add: example_state_def set_opacity_def)
  have b: "\<not> num_gt (track_in (opacity_of ?u 2) j) (clamp01 (Fin 1))" for j
    unfolding o c track_in_stagnates by (simp add: num_gt_def)
  have a0: "active (timers (ticks 0 0 (snd (fadeIn ?h (Single 2) (Fin 1) (Fin 50) ?u))) ! 0)"
    by (rule fadeIn_pending(2) [of ?u 2 "Fin 1" 0, OF b t])
  have v: "opacity (timers (ticks 0 n (snd (fadeIn ?h (Single 2) (Fin 1) (Fin 50) ?u))) ! 0) =
      Fin (- (2 ^ 60))" for n
  proof -
    have "opacity (timers (ticks 0 n (snd (fadeIn ?h (Single 2) (Fin 1) (Fin 50) ?u))) ! 0) =
        track_in (opacity_of ?u 2) n"
      by (rule fadeIn_pending(3) [of ?u 2 "Fin 1" 0, OF b t])
    also have "\<dots> = Fin (- 1152921504606846976)" by (simp only: o track_in_stagnates)
    also have "\<dots> = Fin (- (2 ^ 60))" by simp
    finally show ?thesis .
  qed
  have s: "num_div (num_add (num_mul (Fin (- (2 ^ 60))) (Fin 10)) (Fin 1)) (Fin 10) = Fin (- (2 ^ 60))"
    unfolding e using step_in_stagnates by (simp only: step_in_def)
  have t1: "0 = length (timers example_state)" by (simp add: example_state_def)
  have b1: "\<not> num_gt (track_in (opacity_of example_state 1) j) (clamp01 NaN)" for j
    unfolding clamp01_NaN num_gt_def by (rule num_lt_NaN)
  have k: "\<forall>n. active (timers (ticks 0 n (snd (fadeIn ?h (Single 1) NaN (Fin 50) example_state))) ! 0)"
    by (intro allI) (rule fadeIn_pending(2) [of example_state 1 NaN 0, OF b1 t1])
  show ?thesis by (intro conjI o' a0 v s clamp01_NaN k)
qed

section \<open>Fades on a collection\<close>

lemma new_timer_timers: "new_timer k el t dl (s\<lparr>timers := ts\<rparr>) = new_timer k el t dl s"
  by (simp add: new_timer_def opacity_of_def)

lemma for_of_start_fade:
  "for_of els (\<lambda>el s'. case start_fade k el t dl s' of (p, s'') \<Rightarrow> (Inr p, s'')) results s =
     (Inr (results @ map TimerPromise [length (timers s)..<length (timers s) + length els]),
      s\<lparr>timers := timers s @ map (\<lambda>el. new_timer k el t dl s) els\<rparr>)"
proof (induction els arbitrary: results s)
  case Nil
  then show ?case by simp
next
  case (Cons el els)
  let ?cb = "\<lambda>el s'. case start_fade k el t dl s' of (p, s'') \<Rightarrow> (Inr p, s'')"
  let ?s1 = "s\<lparr>timers := timers s @ [new_timer k el t dl s]\<rparr>"
  have upt: "[length (timers s)..<length (timers s) + length (el # els)] =
      length (timers s) # [length (timers ?s1)..<length (timers ?s1) + length els]"
    by (simp add: upt_conv_Cons del: upt_Suc)
  have "for_of (el # els) ?cb results s =
      for_of els ?cb (results @ [TimerPromise (length (timers s))]) ?s1"
    by (simp add: start_fade_def)
  also have "\<dots> =
      (Inr ((results @ [TimerPromise (length (timers s))]) @
          map TimerPromise [length (timers ?s1)..<length (timers ?s1) + length els]),
       ?s1\<lparr>timers := timers ?s1 @ map (\<lambda>el. new_timer k el t dl ?s1) els\<rparr>)"
    by (rule Cons.IH)
  also have "\<dots> =
      (Inr (results @ map TimerPromise [length (timers s)..<length (timers s) + length (el # els)]),
       s\<lparr>timers := timers s @ map (\<lambda>el. new_timer k el t dl s) (el # els)\<rparr>)"
    unfolding upt by (simp add: new_timer_timers del: upt_Suc)
  finally show ?case .
qed

lemma fade_targets:
  "fadeIn h (Collection els) t dl s =
     (Inr ResolvedPromise, s\<lparr>timers := timers s @ map (\<lambda>el. new_timer FadeIn el t dl s) els\<rparr>)"
  "findAll h selector (body h) s = Inr els \<Longrightarrow> fadeIn h (Selector selector) t dl s =
     (Inr ResolvedPromise, s\<lparr>timers := timers s @ map (\<lambda>el. new_timer FadeIn el t dl s) els\<rparr>)"
  "fadeOut h (Collection els) t dl s =
     (Inr ResolvedPromise, s\<lparr>timers := timers s @ map (\<lambda>el. new_timer FadeOut el t dl s) els\<rparr>)"
  "findAll h selector (body h) s = Inr els \<Longrightarrow> fadeOut h (Selector selector) t dl s =
     (Inr ResolvedPromise, s\<lparr>timers := timers s @ map (\<lambda>el. new_timer FadeOut el t dl s) els\<rparr>)"
  by (simp_all add: fadeIn_def fadeOut_def fadeIn_element_def fadeOut_element_def elementMap_def
      for_of_start_fade)

lemma new_timers_pending:
  assumes "s' = s\<lparr>timers := timers s @ map (\<lambda>el. new_timer k el t dl s) els\<rparr>"
    and "j < length els"
  shows "active (timers s' ! (length (timers s) + j)) \<and>
     \<not> is_resolved s' (TimerPromise (length (timers s) + j)) \<and>
     element (timers s' ! (length (timers s) + j)) = els ! j \<and>
     fade (timers s' ! (length (timers s) + j)) = k"
  using assms by (simp add: nth_append new_timer_def)

text \<open>
  Claim C2. For a collection-valued target (an array or node list \<open>els\<close>, or a selector
  string that the host resolves to the nodes \<open>els\<close>, of any length), \<open>fadeIn\<close> and \<open>fadeOut\<close>
  return \<^verbatim>\<open>Promise.resolve()\<close>: a promise that is resolved in the state at the moment of
  return. In that state one timer per node has been started, and for every node its timer
  is active and its own promise still pending: the returned promise does not wait for
  them, and it is none of them (the result is \<open>ResolvedPromise\<close>, never a \<open>TimerPromise\<close>),
  so the per-node promises do not reach the caller.
\<close>

theorem fade_collection_resolved_at_once:
  "(\<exists>s'. fadeIn h (Collection els) t dl s = (Inr ResolvedPromise, s') \<and>
      is_resolved s' ResolvedPromise \<and>
      length (timers s') = length (timers s) + length els \<and>
      (\<forall>j<length els. active (timers s' ! (length (timers s) + j)) \<and>
         \<not> is_resolved s' (TimerPromise (length (timers s) + j)) \<and>
         element (timers s' ! (length (timers s) + j)) = els ! j \<and>
         fade (timers s' ! (length (timers s) + j)) = FadeIn)) \<and>
   (\<exists>s'. fadeOut h (Collection els) t dl s = (Inr ResolvedPromise, s') \<and>
      is_resolved s' ResolvedPromise \<and>
      length (timers s') = length (timers s) + length els \<and>
      (\<forall>j<length els. active (timers s' ! (length (timers s) + j)) \<and>
         \<not> is_resolved s' (TimerPromise (length (timers s) + j)) \<and>
         element (timers s' ! (length (timers s) + j)) = els ! j \<and>
         fade (timers s' ! (length (timers s) + j)) = FadeOut)) \<and>
   (findAll h selector (body h) s = Inr els \<longrightarrow>
      fadeIn h (Selector selector) t dl s = fadeIn h (Collection els) t dl s \<and>
      fadeOut h (Selector selector) t dl s = fadeOut h (Collection els) t dl s)"
proof (intro conjI impI)
  let ?si = "s\<lparr>timers := timers s @ map (\<lambda>el. new_timer FadeIn el t dl s) els\<rparr>"
  let ?so = "s\<lparr>timers := timers s @ map (\<lambda>el. new_timer FadeOut el t dl s) els\<rparr>"
  show "\<exists>s'. fadeIn h (Collection els) t dl s = (Inr ResolvedPromise, s') \<and>
      is_resolved s' ResolvedPromise \<and>
      length (timers s') = length (timers s) + length els \<and>
      (\<forall>j<length els. active (timers s' ! (length (timers s) + j)) \<and>
         \<not> is_resolved s' (TimerPromise (length (timers s) + j)) \<and>
         element (timers s' ! (length (timers s) + j)) = els ! j \<and>
         fade (timers s' ! (length (timers s) + j)) = FadeIn)"
    using new_timers_pending [of ?si s FadeIn t dl els]
    by (intro exI [of _ ?si] conjI fade_targets(1)) simp_all
  show "\<exists>s'. fadeOut h (Collection els) t dl s = (Inr ResolvedPromise, s') \<and>
      is_resolved s' ResolvedPromise \<and>
      length (timers s') = length (timers s) + length els \<and>
      (\<forall>j<length els. active (timers s' ! (length (timers s) + j)) \<and>
         \<not> is_resolved s' (TimerPromise (length (timers s) + j)) \<and>
         element (timers s' ! (length (timers s) + j)) = els ! j \<and>
         fade (timers s' ! (length (timers s) + j)) = FadeOut)"
    using new_timers_pending [of ?so s FadeOut t dl els]
    by (intro exI [of _ ?so] conjI fade_targets(3)) simp_all
next
  assume sel: "findAll h selector (body h) s = Inr els"
  show "fadeIn h (Selector selector) t dl s = fadeIn h (Collection els) t dl s"
    by (simp only: fade_targets(1) fade_targets(2) [OF sel])
  show "fadeOut h (Selector selector) t dl s = fadeOut h (Collection els) t dl s"
    by (simp only: fade_targets(3) fade_targets(4) [OF sel])
qed

theorem fade_collection_resolved_at_once_witness:
  "findAll example_host ''li'' (body (example_host :: unit state host)) example_state = Inr [1, 2, 3] \<and>
   (\<exists>s'. fadeIn example_host (Selector ''li'') (Fin 1) (Fin 50) example_state =
        (Inr ResolvedPromise, s') \<and>
      is_resolved s' ResolvedPromise \<and> length (timers s') = 3 \<and>
      active (timers s' ! 2) \<and> \<not> is_resolved s' (TimerPromise 2) \<and> element (timers s' ! 2) = 3) \<and>
   (\<exists>s'. fadeOut example_host (Selector ''li'') (Fin 0) (Fin 50) example_state =
        (Inr ResolvedPromise, s') \<and>
      is_resolved s' ResolvedPromise \<and> length (timers s') = 3 \<and>
      active (timers s' ! 0) \<and> \<not> is_resolved s' (TimerPromise 0) \<and> element (timers s' ! 0) = 1)"
proof -
  let ?h = "example_host :: unit state host"
  have sel: "findAll ?h ''li'' (body ?h) example_state = Inr [1, 2, 3]"
    by (simp add: findAll_def example_host_def)
  have len: "length (timers example_state) = 0" by (simp add: example_state_def)
  note ci = fade_collection_resolved_at_once [of ?h "[1, 2, 3]" "Fin 1" "Fin 50" example_state "''li''"]
  note co = fade_collection_resolved_at_once [of ?h "[1, 2, 3]" "Fin 0" "Fin 50" example_state "''li''"]
  have ei: "fadeIn ?h (Selector ''li'') (Fin 1) (Fin 50) example_state =
      fadeIn ?h (Collection [1, 2, 3]) (Fin 1) (Fin 50) example_state"
    using ci [THEN conjunct2, THEN conjunct2, rule_format, OF sel] by (rule conjunct1)
  have eo: "fadeOut ?h (Selector ''li'') (Fin 0) (Fin 50) example_state =
      fadeOut ?h (Collection [1, 2, 3]) (Fin 0) (Fin 50) example_state"
    using co [THEN conjunct2, THEN conjunct2, rule_format, OF sel] by (rule conjunct2)
  from ci [THEN conjunct1] obtain si where
    i: "fadeIn ?h (Collection [1, 2, 3]) (Fin 1) (Fin 50) example_state = (Inr ResolvedPromise, si)"
      "is_resolved si ResolvedPromise"
      "length (timers si) = length (timers example_state) + length [1, 2, 3::nat]"
      "\<forall>j<length [1, 2, 3::nat]. active (timers si ! (length (timers example_state) + j)) \<and>
         \<not> is_resolved si (TimerPromise (length (timers example_state) + j)) \<and>
         element (timers si ! (length (timers example_state) + j)) = [1, 2, 3] ! j \<and>
         fade (timers si ! (length (timers example_state) + j)) = FadeIn"
    by - (erule exE, elim conjE, rule that; assumption)
  from co [THEN conjunct2, THEN conjunct1] obtain so where
    o: "fadeOut ?h (Collection [1, 2, 3]) (Fin 0) (Fin 50) example_state = (Inr ResolvedPromise, so)"
      "is_resolved so ResolvedPromise"
      "length (timers so) = length (timers example_state) + length [1, 2, 3::nat]"
      "\<forall>j<length [1, 2, 3::nat]. active (timers so ! (length (timers example_state) + j)) \<and>
         \<not> is_resolved so (TimerPromise (length (timers example_state) + j)) \<and>
         element (timers so ! (length (timers example_state) + j)) = [1, 2, 3] ! j \<and>
         fade (timers so ! (length (timers example_state) + j)) = FadeOut"
    by - (erule exE, elim conjE, rule that; assumption)
  have i2: "active (timers si ! 2) \<and> \<not> is_resolved si (TimerPromise 2) \<and> element (timers si ! 2) = 3"
    using i(4) [rule_format, of 2] by (simp add: len numeral_2_eq_2)
  have o0: "active (timers so ! 0) \<and> \<not> is_resolved so (TimerPromise 0) \<and> element (timers so ! 0) = 1"
    using o(4) [rule_format, of 0] by (simp add: len)
  have a: "\<exists>s'. fadeIn ?h (Selector ''li'') (Fin 1) (Fin 50) example_state =
        (Inr ResolvedPromise, s') \<and>
      is_resolved s' ResolvedPromise \<and> length (timers s') = 3 \<and>
      active (timers s' ! 2) \<and> \<not> is_resolved s' (TimerPromise 2) \<and> element (timers s' ! 2) = 3"
    using i(1,2,3) i2 by (intro exI [of _ si]) (simp add: ei len)
  have b: "\<exists>s'. fadeOut ?h (Selector ''li'') (Fin 0) (Fin 50) example_state =
        (Inr ResolvedPromise, s') \<and>
      is_resolved s' ResolvedPromise \<and> length (timers s') = 3 \<and>
      active (timers s' ! 0) \<and> \<not> is_resolved s' (TimerPromise 0) \<and> element (timers s' ! 0) = 1"
    using o(1,2,3) o0 by (intro exI [of _ so]) (simp add: eo len)
  show ?thesis by (intro conjI sel a b)
qed

end
